(* ===== verification/Prelude.thy ===== *)
theory Prelude
  imports Main "HOL-Library.Word"
begin

unbundle bit_operations_syntax

text \<open>
  The vocabulary every component of the development shares: the machine integers, the
  outcome of a C function (a value, or the way the process ends), memory as a list of bytes
  with checked reads and writes, C strings as byte lists and the big-endian 32-bit words of
  the firmware formats. The named collections \<open>c_outcome\<close> and \<open>mem_simps\<close> gather
  the facts that take a run of the model apart.
\<close>

section \<open>Machine integers\<close>

type_synonym byte = "8 word"
type_synonym u16 = "16 word"
type_synonym u32 = "32 word"
type_synonym u64 = "64 word"

named_theorems c_outcome "when a composed C computation returns, and with what"
named_theorems mem_simps "lengths and contents of memory after a checked write"

section \<open>The outcome of a C function\<close>

text \<open>
  A call returns a value (\<open>Inr\<close>) or does not (\<open>Inl\<close>): the process ends through the
  macro \<open>error(1, ...)\<close> with its message, through \<open>exit\<close> with its status, through a
  failed \<open>assert\<close>, by a signal whose default action ends it, or by behaviour the C standard
  leaves undefined (an access outside an object, a dereferenced null pointer); or the call is
  still running when the system calls whose results the model was given are used up.
\<close>

datatype failure =
    ErrorExit string
  | Exit int
  | AssertFail
  | Signal
  | Running
  | Undefined

type_synonym 'a c = "failure + 'a"

definition cbind :: "'a c \<Rightarrow> ('a \<Rightarrow> 'b c) \<Rightarrow> 'b c" where
  "cbind m f = (case m of Inl e \<Rightarrow> Inl e | Inr x \<Rightarrow> f x)"

definition c_assert :: "bool \<Rightarrow> unit c" where
  "c_assert b = (if b then Inr () else Inl AssertFail)"

definition error_if :: "bool \<Rightarrow> string \<Rightarrow> unit c" where
  "error_if b msg = (if b then Inl (ErrorExit msg) else Inr ())"

definition defined_if :: "bool \<Rightarrow> unit c" where
  "defined_if b = (if b then Inr () else Inl Undefined)"

lemma cbind_simps [simp]:
  "cbind (Inr x) f = f x"
  "cbind (Inl e) f = Inl e"
  by (simp_all add: cbind_def)

lemma cbind_Inr_iff [c_outcome]: "cbind m f = Inr y \<longleftrightarrow> (\<exists>x. m = Inr x \<and> f x = Inr y)"
  by (cases m) auto

lemma cbind_Inl_iff [c_outcome]:
  "cbind m f = Inl e \<longleftrightarrow> m = Inl e \<or> (\<exists>x. m = Inr x \<and> f x = Inl e)"
  by (cases m) auto

lemma cbind_assoc [simp]: "cbind (cbind m f) g = cbind m (\<lambda>x. cbind (f x) g)"
  by (cases m) auto

lemma c_assert_iff [simp]:
  "c_assert b = Inr u \<longleftrightarrow> b"
  "c_assert b = Inl e \<longleftrightarrow> \<not> b \<and> e = AssertFail"
  by (auto simp: c_assert_def)

lemma c_assert_simps [simp]: "c_assert True = Inr ()" "c_assert False = Inl AssertFail"
  by (simp_all add: c_assert_def)

lemma error_if_iff [simp]:
  "error_if b msg = Inr u \<longleftrightarrow> \<not> b"
  "error_if b msg = Inl e \<longleftrightarrow> b \<and> e = ErrorExit msg"
  by (auto simp: error_if_def)

lemma error_if_simps [simp]:
  "error_if True msg = Inl (ErrorExit msg)" "error_if False msg = Inr ()"
  by (simp_all add: error_if_def)

lemma defined_if_iff [simp]:
  "defined_if b = Inr u \<longleftrightarrow> b"
  "defined_if b = Inl e \<longleftrightarrow> \<not> b \<and> e = Undefined"
  by (auto simp: defined_if_def)

lemma defined_if_simps [simp]: "defined_if True = Inr ()" "defined_if False = Inl Undefined"
  by (simp_all add: defined_if_def)

section \<open>Memory\<close>

text \<open>
  An object is the list of its bytes. \<open>overwrite\<close> is the total list operation,
  \<open>mem_write\<close> and \<open>mem_read\<close> are the C accesses: outside the object they are
  undefined behaviour.
\<close>

definition overwrite :: "'a list \<Rightarrow> nat \<Rightarrow> 'a list \<Rightarrow> 'a list" where
  "overwrite buf off data = take off buf @ data @ drop (off + length data) buf"

definition mem_write :: "'a list \<Rightarrow> nat \<Rightarrow> 'a list \<Rightarrow> 'a list c" where
  "mem_write buf off data =
     (if off + length data \<le> length buf then Inr (overwrite buf off data) else Inl Undefined)"

definition mem_read :: "'a list \<Rightarrow> nat \<Rightarrow> nat \<Rightarrow> 'a list c" where
  "mem_read buf off n =
     (if off + n \<le> length buf then Inr (take n (drop off buf)) else Inl Undefined)"

lemma length_overwrite [mem_simps]:
  "off + length data \<le> length buf \<Longrightarrow> length (overwrite buf off data) = length buf"
  by (simp add: overwrite_def)

lemma mem_write_Inr_iff [c_outcome]:
  "mem_write buf off data = Inr buf' \<longleftrightarrow>
     off + length data \<le> length buf \<and> buf' = overwrite buf off data"
  by (auto simp: mem_write_def)

lemma mem_read_Inr_iff [c_outcome]:
  "mem_read buf off n = Inr r \<longleftrightarrow> off + n \<le> length buf \<and> r = take n (drop off buf)"
  by (auto simp: mem_read_def)

lemma mem_write_ok [simp]:
  "off + length data \<le> length buf \<Longrightarrow> mem_write buf off data = Inr (overwrite buf off data)"
  by (simp add: mem_write_def)

lemma mem_read_ok [simp]:
  "off + n \<le> length buf \<Longrightarrow> mem_read buf off n = Inr (take n (drop off buf))"
  by (simp add: mem_read_def)

lemma overwrite_prefix [mem_simps]:
  "n \<le> off \<Longrightarrow> off \<le> length buf \<Longrightarrow> take n (overwrite buf off data) = take n buf"
  by (simp add: overwrite_def min_absorb1)

lemma overwrite_suffix [mem_simps]:
  "off + length data \<le> n \<Longrightarrow> off \<le> length buf \<Longrightarrow>
     drop n (overwrite buf off data) = drop n buf"
  by (simp add: overwrite_def min_absorb2)

lemma overwrite_self [mem_simps]:
  "off \<le> length buf \<Longrightarrow> take (length data) (drop off (overwrite buf off data)) = data"
  by (simp add: overwrite_def)

lemma overwrite_append [mem_simps]:
  "off = length xs \<Longrightarrow> overwrite (xs @ ys) off data = xs @ data @ drop (length data) ys"
  by (simp add: overwrite_def)

lemma overwrite_all [simp]:
  "length data = length buf \<Longrightarrow> overwrite buf 0 data = data"
  by (simp add: overwrite_def)

lemma overwrite_adjacent [mem_simps]:
  "off' = off + length d1 \<Longrightarrow> off \<le> length buf \<Longrightarrow>
     overwrite (overwrite buf off d1) off' d2 = overwrite buf off (d1 @ d2)"
  by (simp add: overwrite_def add.assoc add.commute [of "length d2"])

lemma nth_overwrite:
  "off + length data \<le> length buf \<Longrightarrow> i < length buf \<Longrightarrow>
     overwrite buf off data ! i =
       (if off \<le> i \<and> i < off + length data then data ! (i - off) else buf ! i)"
  by (auto simp: overwrite_def nth_append min_absorb1)

text \<open>A write that starts on the tail of an earlier one replaces that tail.\<close>

lemma overwrite_extend:
  assumes "length z \<le> length d2" "off + length d1 + length d2 \<le> length buf"
  shows "overwrite (overwrite buf off (d1 @ z)) (off + length d1) d2 = overwrite buf off (d1 @ d2)"
  using assms
  by (intro nth_equalityI) (auto simp: length_overwrite nth_overwrite nth_append)

text \<open>A window of memory that a write does not touch reads the same afterwards.\<close>

lemma window_overwrite_before [mem_simps]:
  "n + k \<le> off \<Longrightarrow> off \<le> length buf \<Longrightarrow>
     take k (drop n (overwrite buf off data)) = take k (drop n buf)"
proof -
  assume a: "n + k \<le> off" "off \<le> length buf"
  have "take k (drop n (overwrite buf off data)) = drop n (take (n + k) (overwrite buf off data))"
    by (simp add: drop_take)
  also have "\<dots> = drop n (take (n + k) buf)"
    using a by (simp add: overwrite_prefix)
  also have "\<dots> = take k (drop n buf)"
    by (simp add: drop_take)
  finally show ?thesis .
qed

lemma window_overwrite_after [mem_simps]:
  "off + length data \<le> n \<Longrightarrow> off \<le> length buf \<Longrightarrow>
     take k (drop n (overwrite buf off data)) = take k (drop n buf)"
  by (simp add: overwrite_suffix)

section \<open>C strings\<close>

text \<open>
  A string literal of the source is a HOL string, stored as the bytes \<open>bytes s\<close>; in
  memory it is followed by a zero byte. \<open>cstring_at\<close> reads a string back, up to its
  terminator.
\<close>

definition bytes :: "string \<Rightarrow> byte list" where
  "bytes s = map of_char s"

definition cstring_at :: "byte list \<Rightarrow> nat \<Rightarrow> byte list" where
  "cstring_at buf off = takeWhile (\<lambda>b. b \<noteq> 0) (drop off buf)"

lemma length_bytes [simp]: "length (bytes s) = length s"
  by (simp add: bytes_def)

lemma bytes_append [simp]: "bytes (s @ t) = bytes s @ bytes t"
  by (simp add: bytes_def)

lemma bytes_Nil_iff [simp]: "bytes s = [] \<longleftrightarrow> s = []"
  by (simp add: bytes_def)

lemma of_char_byte_eq_iff: "(of_char c :: byte) = of_char d \<longleftrightarrow> c = d"
proof
  assume "(of_char c :: byte) = of_char d"
  then have "(of_nat (of_char c) :: byte) = of_nat (of_char d)"
    by (simp only: of_nat_of_char)
  then have "unat (of_nat (of_char c) :: byte) = unat (of_nat (of_char d) :: byte)"
    by (rule arg_cong)
  then have "(of_char c :: nat) mod 2 ^ 8 = of_char d mod 2 ^ 8"
    by (simp add: unat_of_nat)
  moreover have "(of_char c :: nat) < 256" "(of_char d :: nat) < 256"
    by simp_all
  ultimately have "(of_char c :: nat) = of_char d" by simp
  then show "c = d" by simp
qed simp

lemma inj_bytes: "bytes s = bytes t \<longleftrightarrow> s = t"
proof -
  have "inj (of_char :: char \<Rightarrow> byte)"
    by (rule injI) (simp add: of_char_byte_eq_iff)
  then show ?thesis by (simp add: bytes_def inj_map_eq_map)
qed

lemma cstring_at_terminated:
  "0 \<notin> set s \<Longrightarrow> drop off buf = s @ 0 # rest \<Longrightarrow> cstring_at buf off = s"
proof -
  assume "0 \<notin> set s" and eq: "drop off buf = s @ 0 # rest"
  then have "takeWhile (\<lambda>b. b \<noteq> 0) (s @ 0 # rest) = s"
    by (subst takeWhile_append2) auto
  with eq show ?thesis by (simp add: cstring_at_def)
qed

section \<open>Big-endian words\<close>

definition be32 :: "u32 \<Rightarrow> byte list" where
  "be32 v = [ucast (drop_bit 24 v), ucast (drop_bit 16 v), ucast (drop_bit 8 v), ucast v]"

text \<open>
  The number a run of bytes denotes when its first byte is the most significant one.
\<close>

definition be_value :: "byte list \<Rightarrow> nat" where
  "be_value bs = foldl (\<lambda>v b. 256 * v + unat b) 0 bs"

lemma length_be32 [simp]: "length (be32 v) = 4"
  by (simp add: be32_def)

lemma unat_byte_of_u32: "unat (ucast (drop_bit k (v :: u32)) :: byte) = unat v div 2 ^ k mod 256"
  by (simp only: unsigned_ucast_eq unat_drop_bit_eq) (simp add: take_bit_eq_mod drop_bit_eq_div)

lemma base256_digits:
  fixes n :: nat
  shows "256 * (256 * (256 * (n div 2 ^ 24) + n div 2 ^ 16 mod 256) + n div 2 ^ 8 mod 256) + n mod 256 = n"
proof -
  have "n div 2 ^ 16 = n div 256 div 256" "n div 2 ^ 24 = n div 256 div 256 div 256"
    by (simp_all add: div_mult2_eq [symmetric])
  then show ?thesis
    using mult_div_mod_eq [of 256 n] mult_div_mod_eq [of 256 "n div 256"]
      mult_div_mod_eq [of 256 "n div 256 div 256"] by simp
qed

lemma be_value_be32 [simp]: "be_value (be32 v) = unat v"
proof -
  have "unat v < 2 ^ 32" using unsigned_less [of v] by simp
  then have "unat v div 2 ^ 24 mod 256 = unat v div 2 ^ 24" by simp
  moreover have "unat (ucast v :: byte) = unat v mod 256"
    using unat_byte_of_u32 [of 0 v] by simp
  ultimately show ?thesis
    using base256_digits [of "unat v"]
    by (simp only: be_value_def be32_def unat_byte_of_u32 foldl.simps) simp
qed

section \<open>Masks\<close>

lemma unat_and_mask: "unat ((w :: 'a::len word) AND mask n) = unat w mod 2 ^ n"
  by (simp add: take_bit_eq_mask [symmetric] unsigned_take_bit_eq) (simp add: take_bit_eq_mod)

lemma and_not_mask_eq_minus: "(w :: 'a::len word) AND NOT (mask n) = w - (w AND mask n)"
proof -
  have "w = (w AND mask n) + (w AND NOT (mask n))"
    by (subst disjunctive_add_eq_or) (auto simp: bit_eq_iff bit_simps)
  then show ?thesis by (simp add: algebra_simps)
qed

lemma unat_and_not_mask: "unat ((w :: 'a::len word) AND NOT (mask n)) = unat w - unat w mod 2 ^ n"
proof -
  have "w AND mask n \<le> w"
    by (simp add: word_le_nat_alt unat_and_mask)
  then show ?thesis
    by (simp add: and_not_mask_eq_minus unat_sub unat_and_mask)
qed

lemma mask_6: "(0x3f :: 'a::len word) = mask 6"
  by (simp add: mask_eq_exp_minus_1)

lemma unat_and_3f: "unat ((w :: 'a::len word) AND 0x3f) = unat w mod 64"
  unfolding mask_6 by (simp add: unat_and_mask)

lemma unat_and_not_3f: "unat ((w :: 'a::len word) AND NOT 0x3f) = unat w - unat w mod 64"
  unfolding mask_6 by (simp add: unat_and_not_mask)

end
