(* ===== verification/CFormat.thy ===== *)
theory CFormat
  imports Prelude
begin

text \<open>
  The C library's text conversions the tools use: \<open>snprintf\<close> into a bounded buffer, the
  conversion \<open>%05x\<close>, \<open>strtoul\<close> in base 16 and \<open>memchr\<close>; that reading a
  printed number back gives the number; the two line formats of the partition tables.
\<close>

section \<open>Strings and searching\<close>

type_synonym cstr = "byte list"

text \<open>A C string: no byte of it is the terminator.\<close>

definition is_cstr :: "byte list \<Rightarrow> bool" where
  "is_cstr s \<longleftrightarrow> 0 \<notin> set s"

text \<open>\<open>memchr(buf + ptr, b, n)\<close>, as the index of the hit.\<close>

definition memchr :: "byte list \<Rightarrow> nat \<Rightarrow> byte \<Rightarrow> nat \<Rightarrow> nat option" where
  "memchr buf ptr b n =
     (let seg = take n (drop ptr buf);
          k = length (takeWhile (\<lambda>x. x \<noteq> b) seg)
      in if k < length seg then Some (ptr + k) else None)"

lemma nth_window:
  assumes "ptr \<le> i" "i < ptr + n" "i < length buf"
  shows "take n (drop ptr buf) ! (i - ptr) = buf ! i"
proof -
  have "i - ptr < n" using assms by linarith
  then show ?thesis using assms by (simp add: nth_drop)
qed

lemma memchr_found:
  assumes "drop ptr buf = xs @ b # ys" "b \<notin> set xs" "length xs < n"
  shows "memchr buf ptr b n = Some (ptr + length xs)"
proof -
  have "take n (drop ptr buf) = xs @ b # take (n - length xs - 1) ys"
    using assms(1,3) by (simp add: take_Cons')
  moreover have "takeWhile (\<lambda>x. x \<noteq> b) (xs @ b # take (n - length xs - 1) ys) = xs"
    using assms(2) by (subst takeWhile_append2) auto
  ultimately show ?thesis by (simp add: memchr_def Let_def)
qed

lemma memchr_bounds:
  "memchr buf ptr b n = Some k \<Longrightarrow> ptr \<le> k \<and> k < ptr + n \<and> k < length buf"
  by (auto simp: memchr_def Let_def split: if_splits)

lemma memchr_hit:
  assumes "memchr buf ptr b n = Some k"
  shows "buf ! k = b" "\<forall>i. ptr \<le> i \<and> i < k \<longrightarrow> buf ! i \<noteq> b"
proof -
  let ?seg = "take n (drop ptr buf)"
  let ?w = "takeWhile (\<lambda>x. x \<noteq> b) ?seg"
  have k: "k = ptr + length ?w" "length ?w < length ?seg"
    using assms by (auto simp: memchr_def Let_def split: if_splits)
  have "?seg ! length ?w = b"
    using nth_length_takeWhile [OF k(2)] by simp
  moreover have "?seg ! length ?w = buf ! (ptr + length ?w)"
    using k(2) by (subst nth_take, simp, subst nth_drop) auto
  ultimately show "buf ! k = b" using k(1) by simp
  show "\<forall>i. ptr \<le> i \<and> i < k \<longrightarrow> buf ! i \<noteq> b"
  proof (intro allI impI)
    fix i assume i: "ptr \<le> i \<and> i < k"
    then have "i - ptr < length ?w" using k(1) by linarith
    then have "?seg ! (i - ptr) \<noteq> b"
      by (metis (mono_tags, lifting) nth_mem set_takeWhileD takeWhile_nth)
    moreover have "i < ptr + n" "i < length buf"
      using i k by (simp_all add: less_diff_conv)
    ultimately show "buf ! i \<noteq> b" using i nth_window [of ptr i n buf] by simp
  qed
qed

lemma memchr_None:
  assumes "memchr buf ptr b n = None" "ptr \<le> i" "i < ptr + n" "i < length buf"
  shows "buf ! i \<noteq> b"
proof -
  let ?seg = "take n (drop ptr buf)"
  have "\<not> length (takeWhile (\<lambda>x. x \<noteq> b) ?seg) < length ?seg"
    using assms(1) by (simp add: memchr_def Let_def split: if_splits)
  then have "takeWhile (\<lambda>x. x \<noteq> b) ?seg = ?seg"
    by (metis length_takeWhile_le nat_less_le takeWhile_eq_take take_all_iff order_refl)
  then have "\<forall>x \<in> set ?seg. x \<noteq> b"
    by (simp add: takeWhile_eq_all_conv)
  moreover have "?seg ! (i - ptr) \<in> set ?seg"
    using assms(2-4) by (intro nth_mem) (simp; linarith)
  ultimately show ?thesis using nth_window [OF assms(2-4)] by auto
qed

text \<open>
  The call as the code makes it: the search stops at a hit, and otherwise reads all \<open>n\<close>
  bytes, which must be inside the object.
\<close>

definition memchr_at :: "byte list \<Rightarrow> nat \<Rightarrow> byte \<Rightarrow> nat \<Rightarrow> nat option c" where
  "memchr_at buf ptr b n =
     (case memchr buf ptr b n of
        Some k \<Rightarrow> Inr (Some k)
      | None \<Rightarrow> cbind (defined_if (ptr + n \<le> length buf)) (\<lambda>_. Inr None))"

lemma memchr_at_Some [simp]: "memchr buf ptr b n = Some k \<Longrightarrow> memchr_at buf ptr b n = Inr (Some k)"
  by (simp add: memchr_at_def)

lemma memchr_at_inside: "ptr + n \<le> length buf \<Longrightarrow> memchr_at buf ptr b n = Inr (memchr buf ptr b n)"
  by (simp add: memchr_at_def split: option.splits)

lemma memchr_at_SomeD: "memchr_at buf ptr b n = Inr (Some k) \<Longrightarrow> memchr buf ptr b n = Some k"
  by (auto simp: memchr_at_def cbind_Inr_iff split: option.splits)

section \<open>Bounded printing\<close>

text \<open>
  \<open>snprintf(buf + off, len, ...)\<close> of a finished text: at most \<open>len - 1\<close> of its bytes and
  a terminator are stored. Its return value is the length of the whole text.
\<close>

definition snprintf_at :: "byte list \<Rightarrow> nat \<Rightarrow> nat \<Rightarrow> byte list \<Rightarrow> byte list c" where
  "snprintf_at buf off len text =
     (if len = 0 then Inr buf else mem_write buf off (take (len - 1) text @ [0]))"

lemma snprintf_at_fits:
  "length text < len \<Longrightarrow> off + len \<le> length buf \<Longrightarrow>
     snprintf_at buf off len text = Inr (overwrite buf off (text @ [0]))"
  by (simp add: snprintf_at_def)

lemma snprintf_at_defined:
  "off + len \<le> length buf \<Longrightarrow>
     \<exists>buf'. snprintf_at buf off len text = Inr buf' \<and> length buf' = length buf"
  by (auto simp: snprintf_at_def mem_simps)

section \<open>Hexadecimal numbers\<close>

definition hex_digit :: "nat \<Rightarrow> byte" where
  "hex_digit d = (if d < 10 then of_nat (48 + d) else of_nat (87 + d))"

fun hex_string :: "nat \<Rightarrow> byte list" where
  "hex_string n =
     (if n < 16 then [hex_digit n] else hex_string (n div 16) @ [hex_digit (n mod 16)])"

declare hex_string.simps [simp del]

text \<open>The conversion \<open>%05x\<close> of an unsigned int.\<close>

definition fmt_05x :: "u32 \<Rightarrow> byte list" where
  "fmt_05x v = (let s = hex_string (unat v) in replicate (5 - length s) 48 @ s)"

text \<open>The value of a hexadecimal digit, as \<open>strtoul\<close> accepts it.\<close>

definition hex_val :: "byte \<Rightarrow> nat option" where
  "hex_val b =
     (let n = unat b
      in if 48 \<le> n \<and> n \<le> 57 then Some (n - 48)
         else if 65 \<le> n \<and> n \<le> 70 then Some (n - 55)
         else if 97 \<le> n \<and> n \<le> 102 then Some (n - 87)
         else None)"

definition is_hex :: "byte \<Rightarrow> bool" where
  "is_hex b \<longleftrightarrow> hex_val b \<noteq> None"

definition hex_value :: "byte list \<Rightarrow> nat" where
  "hex_value ds = foldl (\<lambda>v b. 16 * v + the (hex_val b)) 0 ds"

definition is_space :: "byte \<Rightarrow> bool" where
  "is_space b \<longleftrightarrow> b = 32 \<or> (9 \<le> b \<and> b \<le> 13)"

text \<open>
  \<open>strtoul(s, NULL, 16)\<close> on the bytes from \<open>s\<close> on: white space, a sign, a prefix
  \<open>0x\<close> when a digit follows it, the digits; the result saturates at \<open>ULONG_MAX\<close> and a
  minus sign negates it in \<open>unsigned long\<close>.
\<close>

definition strtoul16 :: "byte list \<Rightarrow> u64" where
  "strtoul16 s =
     (let s1 = dropWhile is_space s;
          neg = (s1 \<noteq> [] \<and> hd s1 = 45);
          s2 = (if s1 \<noteq> [] \<and> (hd s1 = 45 \<or> hd s1 = 43) then tl s1 else s1);
          s3 = (if 3 \<le> length s2 \<and> s2 ! 0 = 48 \<and> (s2 ! 1 = 120 \<or> s2 ! 1 = 88) \<and> is_hex (s2 ! 2)
                then drop 2 s2 else s2);
          v = hex_value (takeWhile is_hex s3)
      in if v \<ge> 2 ^ 64 then - 1 else if neg then - of_nat v else of_nat v)"

text \<open>The call on memory: its argument must be a string, ended by a zero byte of the object.\<close>

definition strtoul16_at :: "byte list \<Rightarrow> nat \<Rightarrow> u64 c" where
  "strtoul16_at buf ptr = cbind (defined_if (0 \<in> set (drop ptr buf))) (\<lambda>_. Inr (strtoul16 (drop ptr buf)))"

lemma strtoul16_at_terminated [simp]: "0 \<in> set (drop ptr buf) \<Longrightarrow> strtoul16_at buf ptr = Inr (strtoul16 (drop ptr buf))"
  by (simp add: strtoul16_at_def)

lemma hex_val_digit: "d < 16 \<Longrightarrow> hex_val (hex_digit d) = Some d"
  by (auto simp: hex_digit_def hex_val_def Let_def unat_of_nat unat_word_ariths)

lemma is_hex_digit: "d < 16 \<Longrightarrow> is_hex (hex_digit d)"
  by (simp add: is_hex_def hex_val_digit)

lemma is_hex_0: "is_hex 48"
  by (simp add: is_hex_def hex_val_def)

lemma hex_string_digits: "b \<in> set (hex_string n) \<Longrightarrow> is_hex b"
proof (induction n rule: hex_string.induct)
  case (1 n)
  show ?case
  proof (cases "n < 16")
    case True
    with "1.prems" show ?thesis
      by (subst (asm) hex_string.simps) (simp add: is_hex_digit)
  next
    case False
    with 1 show ?thesis
      by (subst (asm) (2) hex_string.simps) (auto simp: is_hex_digit)
  qed
qed

lemma hex_value_append_digit:
  "hex_value (ds @ [b]) = 16 * hex_value ds + the (hex_val b)"
  by (simp add: hex_value_def)

lemma hex_value_string: "hex_value (hex_string n) = n"
proof (induction n rule: hex_string.induct)
  case (1 n)
  show ?case
  proof (cases "n < 16")
    case True
    then show ?thesis
      by (subst hex_string.simps) (simp add: hex_value_def hex_val_digit)
  next
    case False
    with 1 show ?thesis
      by (subst hex_string.simps) (simp add: hex_value_append_digit hex_val_digit)
  qed
qed

lemma hex_value_zeros: "hex_value (replicate k 48 @ ds) = hex_value ds"
proof -
  have "foldl (\<lambda>v b. 16 * v + the (hex_val b)) 0 (replicate k 48) = 0"
    by (induction k) (simp_all add: hex_val_def)
  then show ?thesis by (simp add: hex_value_def)
qed

lemma hex_string_ne: "hex_string n \<noteq> []"
  by (subst hex_string.simps) simp

lemma fmt_05x_digits: "b \<in> set (fmt_05x v) \<Longrightarrow> is_hex b"
  by (auto simp: fmt_05x_def Let_def is_hex_0 hex_string_digits)

lemma fmt_05x_value: "hex_value (fmt_05x v) = unat v"
  by (simp add: fmt_05x_def Let_def hex_value_zeros hex_value_string)

lemma fmt_05x_ne: "fmt_05x v \<noteq> []"
  by (simp add: fmt_05x_def Let_def hex_string_ne)

text \<open>A number printed with the prefix \<open>0x\<close> and followed by no digit reads back.\<close>

lemma strtoul16_fmt_05x:
  assumes "rest = [] \<or> \<not> is_hex (hd rest)"
  shows "strtoul16 (48 # 120 # fmt_05x v @ rest) = ucast v"
proof -
  let ?s = "48 # 120 # fmt_05x v @ rest"
  obtain d ds where d: "fmt_05x v = d # ds" using fmt_05x_ne [of v] by (cases "fmt_05x v") auto
  then have "is_hex d" using fmt_05x_digits [of d v] by simp
  moreover have "dropWhile is_space ?s = ?s" by (simp add: is_space_def)
  moreover have "takeWhile is_hex (fmt_05x v @ rest) = fmt_05x v"
    using assms by (subst takeWhile_append2) (auto simp: fmt_05x_digits takeWhile_eq_Nil_iff)
  moreover have "\<not> unat v \<ge> 2 ^ 64"
  proof -
    have "unat v < 2 ^ 32" using unsigned_less [of v] by simp
    then show ?thesis by simp
  qed
  ultimately show ?thesis
    using d fmt_05x_value [of v] by (simp add: strtoul16_def Let_def)
qed

section \<open>Decimal numbers\<close>

definition is_digit :: "byte \<Rightarrow> bool" where
  "is_digit b \<longleftrightarrow> 48 \<le> b \<and> b \<le> 57"

definition dec_value :: "byte list \<Rightarrow> nat" where
  "dec_value ds = foldl (\<lambda>v b. 10 * v + (unat b - 48)) 0 ds"

end
