(* ===== verification/Layout.thy ===== *)
theory Layout
  imports CFormat
begin

text \<open>
  The data types of tools/tplink-safeloader/tplink-safeloader.c: image and flash partition
  entries, the firmware layout of a device, and the searches over their null-terminated
  arrays that several functions of the tool share.
\<close>

section \<open>Entries and layouts\<close>

text \<open>
  A null pointer in a name field is \<open>None\<close>. The data of an image partition is the
  object its pointer refers to.
\<close>

record image_partition_entry =
  ip_name :: "cstr option"
  ip_size :: nat
  ip_data :: "byte list"

record flash_partition_entry =
  fp_name :: "cstr option"
  fp_base :: u32
  fp_size :: u32

record device_info =
  di_id :: "cstr option"
  di_vendor :: "cstr option"
  di_support_list :: cstr
  di_support_trail :: byte
  di_soft_ver :: "cstr option"
  di_partitions :: "flash_partition_entry list"
  di_first :: cstr
  di_last :: cstr

definition MAX_PARTITIONS :: nat where
  "MAX_PARTITIONS = 32"

text \<open>A zeroed entry, which also ends an array.\<close>

definition flash_null :: flash_partition_entry where
  "flash_null = \<lparr>fp_name = None, fp_base = 0, fp_size = 0\<rparr>"

definition image_null :: image_partition_entry where
  "image_null = \<lparr>ip_name = None, ip_size = 0, ip_data = []\<rparr>"

definition flash_part :: "string \<Rightarrow> u32 \<Rightarrow> u32 \<Rightarrow> flash_partition_entry" where
  "flash_part n b s = \<lparr>fp_name = Some (bytes n), fp_base = b, fp_size = s\<rparr>"

text \<open>
  The member \<open>partitions[MAX_PARTITIONS+1]\<close> of a layout: the entries its initialiser
  lists, then zeroed entries (the listed \<open>{NULL, 0, 0}\<close> is one of them).
\<close>

definition partition_array :: "flash_partition_entry list \<Rightarrow> flash_partition_entry list" where
  "partition_array es = es @ replicate (MAX_PARTITIONS + 1 - length es) flash_null"

text \<open>The loops \<open>for (i = 0; p[i].name; i++)\<close> visit the entries before the first null name.\<close>

definition live_flash :: "flash_partition_entry list \<Rightarrow> flash_partition_entry list" where
  "live_flash ps = takeWhile (\<lambda>p. fp_name p \<noteq> None) ps"

definition live_parts :: "image_partition_entry list \<Rightarrow> image_partition_entry list" where
  "live_parts ps = takeWhile (\<lambda>p. ip_name p \<noteq> None) ps"

definition terminated_flash :: "flash_partition_entry list \<Rightarrow> bool" where
  "terminated_flash ps \<longleftrightarrow> (\<exists>p \<in> set ps. fp_name p = None)"

definition terminated_parts :: "image_partition_entry list \<Rightarrow> bool" where
  "terminated_parts ps \<longleftrightarrow> (\<exists>p \<in> set ps. ip_name p = None)"

lemma fp_simps [simp]:
  "fp_name (flash_part n b s) = Some (bytes n)"
  "fp_base (flash_part n b s) = b"
  "fp_size (flash_part n b s) = s"
  by (simp_all add: flash_part_def)

lemma flash_null_simps [simp]:
  "fp_name flash_null = None" "fp_base flash_null = 0" "fp_size flash_null = 0"
  by (simp_all add: flash_null_def)

lemma image_null_simps [simp]:
  "ip_name image_null = None" "ip_size image_null = 0" "ip_data image_null = []"
  by (simp_all add: image_null_def)

lemma live_flash_array [simp]:
  assumes "\<forall>p \<in> set es. fp_name p \<noteq> None"
  shows "live_flash (partition_array es) = es"
proof -
  have "takeWhile (\<lambda>p. fp_name p \<noteq> None) (replicate k flash_null) = []" for k
    by (cases k) auto
  then show ?thesis
    using assms by (simp add: live_flash_def partition_array_def)
qed

lemma terminated_array [simp]:
  "length es \<le> MAX_PARTITIONS \<Longrightarrow> terminated_flash (partition_array es)"
  by (auto simp: terminated_flash_def partition_array_def)

section \<open>Comparing names\<close>

text \<open>\<open>strcasecmp\<close> in the C locale, as the test for equality.\<close>

definition to_lower :: "byte \<Rightarrow> byte" where
  "to_lower b = (if 65 \<le> b \<and> b \<le> 90 then b + 32 else b)"

definition strcasecmp_eq :: "cstr \<Rightarrow> cstr \<Rightarrow> bool" where
  "strcasecmp_eq s t \<longleftrightarrow> map to_lower s = map to_lower t"

lemma strcasecmp_eq_refl [simp]: "strcasecmp_eq s s"
  by (simp add: strcasecmp_eq_def)

lemma strcasecmp_eq_sym: "strcasecmp_eq s t \<Longrightarrow> strcasecmp_eq t s"
  by (simp add: strcasecmp_eq_def)

lemma strcasecmp_eq_trans: "strcasecmp_eq s t \<Longrightarrow> strcasecmp_eq t u \<Longrightarrow> strcasecmp_eq s u"
  by (simp add: strcasecmp_eq_def)

text \<open>A name the table parser can read back: no terminator, newline or space in it.\<close>

definition wordlike :: "cstr \<Rightarrow> bool" where
  "wordlike n \<longleftrightarrow> 0 \<notin> set n \<and> 10 \<notin> set n \<and> 32 \<notin> set n"

lemma wordlike_bytes:
  "wordlike (bytes s) \<longleftrightarrow> CHR 0x00 \<notin> set s \<and> CHR 0x0A \<notin> set s \<and> CHR 0x20 \<notin> set s"
proof -
  have "(of_char c :: byte) \<in> of_char ` set s \<longleftrightarrow> c \<in> set s" for c
    by (auto simp: image_iff of_char_byte_eq_iff)
  from this [of "CHR 0x00"] this [of "CHR 0x0A"] this [of "CHR 0x20"] show ?thesis
    by (simp add: wordlike_def bytes_def)
qed

section \<open>The well-formedness of a flash layout\<close>

text \<open>
  Entries in increasing order of their base, none reaching into the next, and ends that do
  not wrap around 32 bits.
\<close>

fun flash_ordered :: "flash_partition_entry list \<Rightarrow> bool" where
  "flash_ordered [] \<longleftrightarrow> True"
| "flash_ordered [p] \<longleftrightarrow> unat (fp_base p) + unat (fp_size p) < 2 ^ 32"
| "flash_ordered (p # q # ps) \<longleftrightarrow>
     unat (fp_base p) + unat (fp_size p) \<le> unat (fp_base q) \<and> flash_ordered (q # ps)"

definition flash_range :: "flash_partition_entry \<Rightarrow> nat set" where
  "flash_range p = {unat (fp_base p) ..< unat (fp_base p) + unat (fp_size p)}"

lemma flash_ordered_Cons:
  "flash_ordered (p # ps) \<Longrightarrow> flash_ordered ps"
  by (cases ps) auto

lemma flash_ordered_head:
  "flash_ordered (p # ps) \<Longrightarrow> q \<in> set ps \<Longrightarrow>
     unat (fp_base p) + unat (fp_size p) \<le> unat (fp_base q)"
proof (induction ps arbitrary: p)
  case (Cons r ps)
  then have r: "unat (fp_base p) + unat (fp_size p) \<le> unat (fp_base r)" by simp
  show ?case
  proof (cases "q = r")
    case False
    then have "unat (fp_base r) + unat (fp_size r) \<le> unat (fp_base q)"
      using Cons by auto
    with r show ?thesis by simp
  qed (use r in simp)
qed simp

text \<open>In an ordered layout no two partitions share a byte of flash.\<close>

lemma flash_ordered_disjoint:
  "flash_ordered ps \<Longrightarrow> i < j \<Longrightarrow> j < length ps \<Longrightarrow>
     flash_range (ps ! i) \<inter> flash_range (ps ! j) = {}"
proof (induction ps arbitrary: i j)
  case (Cons p ps)
  show ?case
  proof (cases i)
    case 0
    then have "unat (fp_base p) + unat (fp_size p) \<le> unat (fp_base (ps ! (j - 1)))"
      using Cons.prems by (intro flash_ordered_head [of p ps]) auto
    then show ?thesis
      using 0 Cons.prems(2) by (auto simp: flash_range_def nth_Cons')
  next
    case (Suc i')
    then show ?thesis
      using Cons.IH [of i' "j - 1"] Cons.prems flash_ordered_Cons [of p ps]
      by (auto simp: nth_Cons')
  qed
qed simp

end
