(* ===== verification/Boards.thy ===== *)
theory Boards
  imports Layout
begin

text \<open>
  The firmware layout table \<open>boards\<close> of tools/tplink-safeloader/tplink-safeloader.c, one
  definition per entry with the numbers and strings of its initialiser, the search
  \<open>find_board\<close> over it, and what holds of every entry. A member an initialiser does not
  name is a null pointer.
\<close>

section \<open>The table\<close>

definition crlf :: string where "crlf = [CHR 0x0D, CHR 0x0A]"
definition lf :: string where "lf = [CHR 0x0A]"

definition lines_with :: "string \<Rightarrow> string list \<Rightarrow> string" where
  "lines_with eol ls = concat (map (\<lambda>l. l @ eol) ls)"

definition board_CPE210 :: device_info where
  "board_CPE210 = \<lparr>
     di_id = Some (bytes ''CPE210''),
     di_vendor = Some (bytes (''CPE510(TP-LINK|UN|N300-5):1.0'' @ crlf)),
     di_support_list = bytes (lines_with crlf
       [''SupportList:'',
        ''CPE210(TP-LINK|UN|N300-2):1.0'',
        ''CPE210(TP-LINK|UN|N300-2):1.1'',
        ''CPE210(TP-LINK|US|N300-2):1.1'',
        ''CPE210(TP-LINK|EU|N300-2):1.1'',
        ''CPE220(TP-LINK|UN|N300-2):1.1'',
        ''CPE220(TP-LINK|US|N300-2):1.1'',
        ''CPE220(TP-LINK|EU|N300-2):1.1'']),
     di_support_trail = 0xff,
     di_soft_ver = None,
     di_partitions = partition_array
       [flash_part ''fs-uboot'' 0x00000 0x20000,
        flash_part ''partition-table'' 0x20000 0x02000,
        flash_part ''default-mac'' 0x30000 0x00020,
        flash_part ''product-info'' 0x31100 0x00100,
        flash_part ''signature'' 0x32000 0x00400,
        flash_part ''os-image'' 0x40000 0x1c0000,
        flash_part ''file-system'' 0x200000 0x5b0000,
        flash_part ''soft-version'' 0x7b0000 0x00100,
        flash_part ''support-list'' 0x7b1000 0x00400,
        flash_part ''user-config'' 0x7c0000 0x10000,
        flash_part ''default-config'' 0x7d0000 0x10000,
        flash_part ''log'' 0x7e0000 0x10000,
        flash_part ''radio'' 0x7f0000 0x10000],
     di_first = bytes ''os-image'',
     di_last = bytes ''support-list''\<rparr>"

definition board_CPE510 :: device_info where
  "board_CPE510 = \<lparr>
     di_id = Some (bytes ''CPE510''),
     di_vendor = Some (bytes (''CPE510(TP-LINK|UN|N300-5):1.0'' @ crlf)),
     di_support_list = bytes (lines_with crlf
       [''SupportList:'',
        ''CPE510(TP-LINK|UN|N300-5):1.0'',
        ''CPE510(TP-LINK|UN|N300-5):1.1'',
        ''CPE510(TP-LINK|UN|N300-5):1.1'',
        ''CPE510(TP-LINK|US|N300-5):1.1'',
        ''CPE510(TP-LINK|EU|N300-5):1.1'',
        ''CPE520(TP-LINK|UN|N300-5):1.1'',
        ''CPE520(TP-LINK|US|N300-5):1.1'',
        ''CPE520(TP-LINK|EU|N300-5):1.1'']),
     di_support_trail = 0xff,
     di_soft_ver = None,
     di_partitions = partition_array
       [flash_part ''fs-uboot'' 0x00000 0x20000,
        flash_part ''partition-table'' 0x20000 0x02000,
        flash_part ''default-mac'' 0x30000 0x00020,
        flash_part ''product-info'' 0x31100 0x00100,
        flash_part ''signature'' 0x32000 0x00400,
        flash_part ''os-image'' 0x40000 0x1c0000,
        flash_part ''file-system'' 0x200000 0x5b0000,
        flash_part ''soft-version'' 0x7b0000 0x00100,
        flash_part ''support-list'' 0x7b1000 0x00400,
        flash_part ''user-config'' 0x7c0000 0x10000,
        flash_part ''default-config'' 0x7d0000 0x10000,
        flash_part ''log'' 0x7e0000 0x10000,
        flash_part ''radio'' 0x7f0000 0x10000],
     di_first = bytes ''os-image'',
     di_last = bytes ''support-list''\<rparr>"

definition board_WBS210 :: device_info where
  "board_WBS210 = \<lparr>
     di_id = Some (bytes ''WBS210''),
     di_vendor = Some (bytes (''CPE510(TP-LINK|UN|N300-5):1.0'' @ crlf)),
     di_support_list = bytes (lines_with crlf
       [''SupportList:'',
        ''WBS210(TP-LINK|UN|N300-2):1.20'',
        ''WBS210(TP-LINK|US|N300-2):1.20'',
        ''WBS210(TP-LINK|EU|N300-2):1.20'']),
     di_support_trail = 0xff,
     di_soft_ver = None,
     di_partitions = partition_array
       [flash_part ''fs-uboot'' 0x00000 0x20000,
        flash_part ''partition-table'' 0x20000 0x02000,
        flash_part ''default-mac'' 0x30000 0x00020,
        flash_part ''product-info'' 0x31100 0x00100,
        flash_part ''signature'' 0x32000 0x00400,
        flash_part ''os-image'' 0x40000 0x1c0000,
        flash_part ''file-system'' 0x200000 0x5b0000,
        flash_part ''soft-version'' 0x7b0000 0x00100,
        flash_part ''support-list'' 0x7b1000 0x00400,
        flash_part ''user-config'' 0x7c0000 0x10000,
        flash_part ''default-config'' 0x7d0000 0x10000,
        flash_part ''log'' 0x7e0000 0x10000,
        flash_part ''radio'' 0x7f0000 0x10000],
     di_first = bytes ''os-image'',
     di_last = bytes ''support-list''\<rparr>"

definition board_WBS510 :: device_info where
  "board_WBS510 = \<lparr>
     di_id = Some (bytes ''WBS510''),
     di_vendor = Some (bytes (''CPE510(TP-LINK|UN|N300-5):1.0'' @ crlf)),
     di_support_list = bytes (lines_with crlf
       [''SupportList:'',
        ''WBS510(TP-LINK|UN|N300-5):1.20'',
        ''WBS510(TP-LINK|US|N300-5):1.20'',
        ''WBS510(TP-LINK|EU|N300-5):1.20'']),
     di_support_trail = 0xff,
     di_soft_ver = None,
     di_partitions = partition_array
       [flash_part ''fs-uboot'' 0x00000 0x20000,
        flash_part ''partition-table'' 0x20000 0x02000,
        flash_part ''default-mac'' 0x30000 0x00020,
        flash_part ''product-info'' 0x31100 0x00100,
        flash_part ''signature'' 0x32000 0x00400,
        flash_part ''os-image'' 0x40000 0x1c0000,
        flash_part ''file-system'' 0x200000 0x5b0000,
        flash_part ''soft-version'' 0x7b0000 0x00100,
        flash_part ''support-list'' 0x7b1000 0x00400,
        flash_part ''user-config'' 0x7c0000 0x10000,
        flash_part ''default-config'' 0x7d0000 0x10000,
        flash_part ''log'' 0x7e0000 0x10000,
        flash_part ''radio'' 0x7f0000 0x10000],
     di_first = bytes ''os-image'',
     di_last = bytes ''support-list''\<rparr>"

definition board_C2600 :: device_info where
  "board_C2600 = \<lparr>
     di_id = Some (bytes ''C2600''),
     di_vendor = Some (bytes ('''')),
     di_support_list = bytes (lines_with crlf
       [''SupportList:'',
        ''{product_name:Archer C2600,product_ver:1.0.0,special_id:00000000}'']),
     di_support_trail = 0x00,
     di_soft_ver = None,
     di_partitions = partition_array
       [flash_part ''SBL1'' 0x00000 0x20000,
        flash_part ''MIBIB'' 0x20000 0x20000,
        flash_part ''SBL2'' 0x40000 0x20000,
        flash_part ''SBL3'' 0x60000 0x30000,
        flash_part ''DDRCONFIG'' 0x90000 0x10000,
        flash_part ''SSD'' 0xa0000 0x10000,
        flash_part ''TZ'' 0xb0000 0x30000,
        flash_part ''RPM'' 0xe0000 0x20000,
        flash_part ''fs-uboot'' 0x100000 0x70000,
        flash_part ''uboot-env'' 0x170000 0x40000,
        flash_part ''radio'' 0x1b0000 0x40000,
        flash_part ''os-image'' 0x1f0000 0x200000,
        flash_part ''file-system'' 0x3f0000 0x1b00000,
        flash_part ''default-mac'' 0x1ef0000 0x00200,
        flash_part ''pin'' 0x1ef0200 0x00200,
        flash_part ''product-info'' 0x1ef0400 0x0fc00,
        flash_part ''partition-table'' 0x1f00000 0x10000,
        flash_part ''soft-version'' 0x1f10000 0x10000,
        flash_part ''support-list'' 0x1f20000 0x10000,
        flash_part ''profile'' 0x1f30000 0x10000,
        flash_part ''default-config'' 0x1f40000 0x10000,
        flash_part ''user-config'' 0x1f50000 0x40000,
        flash_part ''qos-db'' 0x1f90000 0x40000,
        flash_part ''usb-config'' 0x1fd0000 0x10000,
        flash_part ''log'' 0x1fe0000 0x20000],
     di_first = bytes ''os-image'',
     di_last = bytes ''file-system''\<rparr>"

definition board_ARCHER_C25_V1 :: device_info where
  "board_ARCHER_C25_V1 = \<lparr>
     di_id = Some (bytes ''ARCHER-C25-V1''),
     di_vendor = None,
     di_support_list = bytes (lines_with lf
       [''SupportList:'',
        ''{product_name:ArcherC25,product_ver:1.0.0,special_id:00000000}'',
        ''{product_name:ArcherC25,product_ver:1.0.0,special_id:55530000}'',
        ''{product_name:ArcherC25,product_ver:1.0.0,special_id:45550000}'']),
     di_support_trail = 0x00,
     di_soft_ver = Some (bytes (''soft_ver:1.0.0'' @ lf)),
     di_partitions = partition_array
       [flash_part ''factory-boot'' 0x00000 0x20000,
        flash_part ''fs-uboot'' 0x20000 0x10000,
        flash_part ''os-image'' 0x30000 0x180000,
        flash_part ''file-system'' 0x1b0000 0x620000,
        flash_part ''user-config'' 0x7d0000 0x04000,
        flash_part ''default-mac'' 0x7e0000 0x00100,
        flash_part ''device-id'' 0x7e0100 0x00100,
        flash_part ''extra-para'' 0x7e0200 0x00100,
        flash_part ''pin'' 0x7e0300 0x00100,
        flash_part ''support-list'' 0x7e0400 0x00400,
        flash_part ''soft-version'' 0x7e0800 0x00400,
        flash_part ''product-info'' 0x7e0c00 0x01400,
        flash_part ''partition-table'' 0x7e2000 0x01000,
        flash_part ''profile'' 0x7e3000 0x01000,
        flash_part ''default-config'' 0x7e4000 0x04000,
        flash_part ''merge-config'' 0x7ec000 0x02000,
        flash_part ''qos-db'' 0x7ee000 0x02000,
        flash_part ''radio'' 0x7f0000 0x10000],
     di_first = bytes ''os-image'',
     di_last = bytes ''file-system''\<rparr>"

definition board_ARCHER_C58_V1 :: device_info where
  "board_ARCHER_C58_V1 = \<lparr>
     di_id = Some (bytes ''ARCHER-C58-V1''),
     di_vendor = Some (bytes ('''')),
     di_support_list = bytes (lines_with crlf
       [''SupportList:'',
        ''{product_name:Archer C58,product_ver:1.0.0,special_id:00000000}'',
        ''{product_name:Archer C58,product_ver:1.0.0,special_id:45550000}'',
        ''{product_name:Archer C58,product_ver:1.0.0,special_id:55530000}'']),
     di_support_trail = 0x00,
     di_soft_ver = Some (bytes (''soft_ver:1.0.0'' @ lf)),
     di_partitions = partition_array
       [flash_part ''fs-uboot'' 0x00000 0x10000,
        flash_part ''default-mac'' 0x10000 0x00200,
        flash_part ''pin'' 0x10200 0x00200,
        flash_part ''product-info'' 0x10400 0x00100,
        flash_part ''partition-table'' 0x10500 0x00800,
        flash_part ''soft-version'' 0x11300 0x00200,
        flash_part ''support-list'' 0x11500 0x00100,
        flash_part ''device-id'' 0x11600 0x00100,
        flash_part ''profile'' 0x11700 0x03900,
        flash_part ''default-config'' 0x15000 0x04000,
        flash_part ''user-config'' 0x19000 0x04000,
        flash_part ''os-image'' 0x20000 0x180000,
        flash_part ''file-system'' 0x1a0000 0x648000,
        flash_part ''certyficate'' 0x7e8000 0x08000,
        flash_part ''radio'' 0x7f0000 0x10000],
     di_first = bytes ''os-image'',
     di_last = bytes ''file-system''\<rparr>"

definition board_ARCHER_C59_V1 :: device_info where
  "board_ARCHER_C59_V1 = \<lparr>
     di_id = Some (bytes ''ARCHER-C59-V1''),
     di_vendor = Some (bytes ('''')),
     di_support_list = bytes (lines_with crlf
       [''SupportList:'',
        ''{product_name:Archer C59,product_ver:1.0.0,special_id:00000000}'',
        ''{product_name:Archer C59,product_ver:1.0.0,special_id:45550000}'',
        ''{product_name:Archer C59,product_ver:1.0.0,special_id:52550000}'',
        ''{product_name:Archer C59,product_ver:1.0.0,special_id:55530000}'']),
     di_support_trail = 0x00,
     di_soft_ver = Some (bytes (''soft_ver:1.0.0'' @ lf)),
     di_partitions = partition_array
       [flash_part ''fs-uboot'' 0x00000 0x10000,
        flash_part ''default-mac'' 0x10000 0x00200,
        flash_part ''pin'' 0x10200 0x00200,
        flash_part ''device-id'' 0x10400 0x00100,
        flash_part ''product-info'' 0x10500 0x0fb00,
        flash_part ''os-image'' 0x20000 0x180000,
        flash_part ''file-system'' 0x1a0000 0xcb0000,
        flash_part ''partition-table'' 0xe50000 0x10000,
        flash_part ''soft-version'' 0xe60000 0x10000,
        flash_part ''support-list'' 0xe70000 0x10000,
        flash_part ''profile'' 0xe80000 0x10000,
        flash_part ''default-config'' 0xe90000 0x10000,
        flash_part ''user-config'' 0xea0000 0x40000,
        flash_part ''usb-config'' 0xee0000 0x10000,
        flash_part ''certificate'' 0xef0000 0x10000,
        flash_part ''qos-db'' 0xf00000 0x40000,
        flash_part ''log'' 0xfe0000 0x10000,
        flash_part ''radio'' 0xff0000 0x10000],
     di_first = bytes ''os-image'',
     di_last = bytes ''file-system''\<rparr>"

definition board_ARCHER_C60_V1 :: device_info where
  "board_ARCHER_C60_V1 = \<lparr>
     di_id = Some (bytes ''ARCHER-C60-V1''),
     di_vendor = Some (bytes ('''')),
     di_support_list = bytes (lines_with crlf
       [''SupportList:'',
        ''{product_name:Archer C60,product_ver:1.0.0,special_id:00000000}'',
        ''{product_name:Archer C60,product_ver:1.0.0,special_id:45550000}'',
        ''{product_name:Archer C60,product_ver:1.0.0,special_id:55530000}'']),
     di_support_trail = 0x00,
     di_soft_ver = Some (bytes (''soft_ver:1.0.0'' @ lf)),
     di_partitions = partition_array
       [flash_part ''fs-uboot'' 0x00000 0x10000,
        flash_part ''default-mac'' 0x10000 0x00200,
        flash_part ''pin'' 0x10200 0x00200,
        flash_part ''product-info'' 0x10400 0x00100,
        flash_part ''partition-table'' 0x10500 0x00800,
        flash_part ''soft-version'' 0x11300 0x00200,
        flash_part ''support-list'' 0x11500 0x00100,
        flash_part ''device-id'' 0x11600 0x00100,
        flash_part ''profile'' 0x11700 0x03900,
        flash_part ''default-config'' 0x15000 0x04000,
        flash_part ''user-config'' 0x19000 0x04000,
        flash_part ''os-image'' 0x20000 0x180000,
        flash_part ''file-system'' 0x1a0000 0x648000,
        flash_part ''certyficate'' 0x7e8000 0x08000,
        flash_part ''radio'' 0x7f0000 0x10000],
     di_first = bytes ''os-image'',
     di_last = bytes ''file-system''\<rparr>"

definition board_ARCHER_C60_V2 :: device_info where
  "board_ARCHER_C60_V2 = \<lparr>
     di_id = Some (bytes ''ARCHER-C60-V2''),
     di_vendor = Some (bytes ('''')),
     di_support_list = bytes (lines_with crlf
       [''SupportList:'',
        ''{product_name:Archer C60,product_ver:2.0.0,special_id:42520000}'',
        ''{product_name:Archer C60,product_ver:2.0.0,special_id:45550000}'',
        ''{product_name:Archer C60,product_ver:2.0.0,special_id:55530000}'']),
     di_support_trail = 0x00,
     di_soft_ver = Some (bytes (''soft_ver:2.0.0'' @ lf)),
     di_partitions = partition_array
       [flash_part ''factory-boot'' 0x00000 0x1fb00,
        flash_part ''default-mac'' 0x1fb00 0x00200,
        flash_part ''pin'' 0x1fd00 0x00100,
        flash_part ''product-info'' 0x1fe00 0x00100,
        flash_part ''device-id'' 0x1ff00 0x00100,
        flash_part ''fs-uboot'' 0x20000 0x10000,
        flash_part ''os-image'' 0x30000 0x180000,
        flash_part ''file-system'' 0x1b0000 0x620000,
        flash_part ''soft-version'' 0x7d9500 0x00100,
        flash_part ''support-list'' 0x7d9600 0x00100,
        flash_part ''extra-para'' 0x7d9700 0x00100,
        flash_part ''profile'' 0x7d9800 0x03000,
        flash_part ''default-config'' 0x7dc800 0x03000,
        flash_part ''partition-table'' 0x7df800 0x00800,
        flash_part ''user-config'' 0x7e0000 0x0c000,
        flash_part ''certificate'' 0x7ec000 0x04000,
        flash_part ''radio'' 0x7f0000 0x10000],
     di_first = bytes ''os-image'',
     di_last = bytes ''file-system''\<rparr>"

definition board_ARCHER_C5_V2 :: device_info where
  "board_ARCHER_C5_V2 = \<lparr>
     di_id = Some (bytes ''ARCHER-C5-V2''),
     di_vendor = Some (bytes ('''')),
     di_support_list = bytes (lines_with crlf
       [''SupportList:'',
        ''{product_name:ArcherC5,product_ver:2.0.0,special_id:00000000}'',
        ''{product_name:ArcherC5,product_ver:2.0.0,special_id:55530000}'',
        ''{product_name:ArcherC5,product_ver:2.0.0,special_id:4A500000}'']),
     di_support_trail = 0x00,
     di_soft_ver = None,
     di_partitions = partition_array
       [flash_part ''fs-uboot'' 0x00000 0x40000,
        flash_part ''os-image'' 0x40000 0x200000,
        flash_part ''file-system'' 0x240000 0xc00000,
        flash_part ''default-mac'' 0xe40000 0x00200,
        flash_part ''pin'' 0xe40200 0x00200,
        flash_part ''product-info'' 0xe40400 0x00200,
        flash_part ''partition-table'' 0xe50000 0x10000,
        flash_part ''soft-version'' 0xe60000 0x00200,
        flash_part ''support-list'' 0xe61000 0x0f000,
        flash_part ''profile'' 0xe70000 0x10000,
        flash_part ''default-config'' 0xe80000 0x10000,
        flash_part ''user-config'' 0xe90000 0x50000,
        flash_part ''log'' 0xee0000 0x100000,
        flash_part ''radio_bk'' 0xfe0000 0x10000,
        flash_part ''radio'' 0xff0000 0x10000],
     di_first = bytes ''os-image'',
     di_last = bytes ''file-system''\<rparr>"

definition board_ARCHER_C7_V4 :: device_info where
  "board_ARCHER_C7_V4 = \<lparr>
     di_id = Some (bytes ''ARCHER-C7-V4''),
     di_vendor = None,
     di_support_list = bytes (lines_with lf
       [''SupportList:'',
        ''{product_name:Archer C7,product_ver:4.0.0,special_id:00000000}'',
        ''{product_name:Archer C7,product_ver:4.0.0,special_id:41550000}'',
        ''{product_name:Archer C7,product_ver:4.0.0,special_id:45550000}'',
        ''{product_name:Archer C7,product_ver:4.0.0,special_id:4B520000}'',
        ''{product_name:Archer C7,product_ver:4.0.0,special_id:42520000}'',
        ''{product_name:Archer C7,product_ver:4.0.0,special_id:4A500000}'',
        ''{product_name:Archer C7,product_ver:4.0.0,special_id:52550000}'',
        ''{product_name:Archer C7,product_ver:4.0.0,special_id:54570000}'',
        ''{product_name:Archer C7,product_ver:4.0.0,special_id:55530000}'',
        ''{product_name:Archer C7,product_ver:4.0.0,special_id:43410000}'']),
     di_support_trail = 0x00,
     di_soft_ver = Some (bytes (''soft_ver:1.0.0'' @ lf)),
     di_partitions = partition_array
       [flash_part ''factory-boot'' 0x00000 0x20000,
        flash_part ''fs-uboot'' 0x20000 0x20000,
        flash_part ''os-image'' 0x40000 0xa00000,
        flash_part ''file-system'' 0xa40000 0x4c0000,
        flash_part ''default-mac'' 0xf00000 0x00200,
        flash_part ''pin'' 0xf00200 0x00200,
        flash_part ''device-id'' 0xf00400 0x00100,
        flash_part ''product-info'' 0xf00500 0x0fb00,
        flash_part ''sysconf'' 0xf10000 0xb0000,
        flash_part ''partition-table'' 0xfc0000 0x10000,
        flash_part ''support-list'' 0xfd0000 0x0a000,
        flash_part ''soft-version'' 0xfda000 0x00100,
        flash_part ''extra-para'' 0xfda100 0x01000,
        flash_part ''identity'' 0xfdb100 0x01000,
        flash_part ''radio'' 0xff0000 0x10000],
     di_first = bytes ''os-image'',
     di_last = bytes ''file-system''\<rparr>"

definition board_ARCHER_C7_V5 :: device_info where
  "board_ARCHER_C7_V5 = \<lparr>
     di_id = Some (bytes ''ARCHER-C7-V5''),
     di_vendor = None,
     di_support_list = bytes (lines_with lf
       [''SupportList:'',
        ''{product_name:Archer C7,product_ver:5.0.0,special_id:00000000}'',
        ''{product_name:Archer C7,product_ver:5.0.0,special_id:55530000}'']),
     di_support_trail = 0x00,
     di_soft_ver = Some (bytes (''soft_ver:1.0.0'' @ lf)),
     di_partitions = partition_array
       [flash_part ''factory-boot'' 0x00000 0x20000,
        flash_part ''fs-uboot'' 0x20000 0x20000,
        flash_part ''partition-table'' 0x40000 0x10000,
        flash_part ''radio'' 0x50000 0x10000,
        flash_part ''default-mac'' 0x60000 0x00200,
        flash_part ''pin'' 0x60200 0x00200,
        flash_part ''device-id'' 0x60400 0x00100,
        flash_part ''product-info'' 0x60500 0x0fb00,
        flash_part ''soft-version'' 0x70000 0x01000,
        flash_part ''extra-para'' 0x71000 0x01000,
        flash_part ''support-list'' 0x72000 0x0a000,
        flash_part ''profile'' 0x7c000 0x04000,
        flash_part ''user-config'' 0x80000 0x40000,
        flash_part ''os-image'' 0xc0000 0x180000,
        flash_part ''file-system'' 0x240000 0xd80000,
        flash_part ''log'' 0xfc0000 0x20000,
        flash_part ''certificate'' 0xfe0000 0x10000,
        flash_part ''default-config'' 0xff0000 0x10000],
     di_first = bytes ''os-image'',
     di_last = bytes ''file-system''\<rparr>"

definition board_ARCHERC9 :: device_info where
  "board_ARCHERC9 = \<lparr>
     di_id = Some (bytes ''ARCHERC9''),
     di_vendor = Some (bytes ('''')),
     di_support_list = bytes (lines_with lf
       [''SupportList:'',
        ''{product_name:ArcherC9,product_ver:1.0.0,special_id:00000000}'']),
     di_support_trail = 0x00,
     di_soft_ver = None,
     di_partitions = partition_array
       [flash_part ''fs-uboot'' 0x00000 0x40000,
        flash_part ''os-image'' 0x40000 0x200000,
        flash_part ''file-system'' 0x240000 0xc00000,
        flash_part ''default-mac'' 0xe40000 0x00200,
        flash_part ''pin'' 0xe40200 0x00200,
        flash_part ''product-info'' 0xe40400 0x00200,
        flash_part ''partition-table'' 0xe50000 0x10000,
        flash_part ''soft-version'' 0xe60000 0x00200,
        flash_part ''support-list'' 0xe61000 0x0f000,
        flash_part ''profile'' 0xe70000 0x10000,
        flash_part ''default-config'' 0xe80000 0x10000,
        flash_part ''user-config'' 0xe90000 0x50000,
        flash_part ''log'' 0xee0000 0x100000,
        flash_part ''radio_bk'' 0xfe0000 0x10000,
        flash_part ''radio'' 0xff0000 0x10000],
     di_first = bytes ''os-image'',
     di_last = bytes ''file-system''\<rparr>"

definition board_EAP120 :: device_info where
  "board_EAP120 = \<lparr>
     di_id = Some (bytes ''EAP120''),
     di_vendor = Some (bytes (''EAP120(TP-LINK|UN|N300-2):1.0'' @ crlf)),
     di_support_list = bytes (lines_with crlf
       [''SupportList:'',
        ''EAP120(TP-LINK|UN|N300-2):1.0'']),
     di_support_trail = 0xff,
     di_soft_ver = None,
     di_partitions = partition_array
       [flash_part ''fs-uboot'' 0x00000 0x20000,
        flash_part ''partition-table'' 0x20000 0x02000,
        flash_part ''default-mac'' 0x30000 0x00020,
        flash_part ''support-list'' 0x31000 0x00100,
        flash_part ''product-info'' 0x31100 0x00100,
        flash_part ''soft-version'' 0x32000 0x00100,
        flash_part ''os-image'' 0x40000 0x180000,
        flash_part ''file-system'' 0x1c0000 0x600000,
        flash_part ''user-config'' 0x7c0000 0x10000,
        flash_part ''backup-config'' 0x7d0000 0x10000,
        flash_part ''log'' 0x7e0000 0x10000,
        flash_part ''radio'' 0x7f0000 0x10000],
     di_first = bytes ''os-image'',
     di_last = bytes ''file-system''\<rparr>"

definition board_TLWA850REV2 :: device_info where
  "board_TLWA850REV2 = \<lparr>
     di_id = Some (bytes ''TLWA850REV2''),
     di_vendor = Some (bytes ('''')),
     di_support_list = bytes (lines_with lf
       [''SupportList:'',
        ''{product_name:TL-WA850RE,product_ver:2.0.0,special_id:55530000}'',
        ''{product_name:TL-WA850RE,product_ver:2.0.0,special_id:00000000}'',
        ''{product_name:TL-WA850RE,product_ver:2.0.0,special_id:55534100}'',
        ''{product_name:TL-WA850RE,product_ver:2.0.0,special_id:45550000}'',
        ''{product_name:TL-WA850RE,product_ver:2.0.0,special_id:4B520000}'',
        ''{product_name:TL-WA850RE,product_ver:2.0.0,special_id:42520000}'',
        ''{product_name:TL-WA850RE,product_ver:2.0.0,special_id:4A500000}'',
        ''{product_name:TL-WA850RE,product_ver:2.0.0,special_id:43410000}'',
        ''{product_name:TL-WA850RE,product_ver:2.0.0,special_id:41550000}'',
        ''{product_name:TL-WA850RE,product_ver:2.0.0,special_id:52550000}'']),
     di_support_trail = 0x00,
     di_soft_ver = None,
     di_partitions = partition_array
       [flash_part ''fs-uboot'' 0x00000 0x20000,
        flash_part ''os-image'' 0x20000 0x150000,
        flash_part ''file-system'' 0x170000 0x240000,
        flash_part ''partition-table'' 0x3b0000 0x02000,
        flash_part ''default-mac'' 0x3c0000 0x00020,
        flash_part ''pin'' 0x3c0100 0x00020,
        flash_part ''product-info'' 0x3c1000 0x01000,
        flash_part ''soft-version'' 0x3c2000 0x00100,
        flash_part ''support-list'' 0x3c3000 0x01000,
        flash_part ''profile'' 0x3c4000 0x08000,
        flash_part ''user-config'' 0x3d0000 0x10000,
        flash_part ''default-config'' 0x3e0000 0x10000,
        flash_part ''radio'' 0x3f0000 0x10000],
     di_first = bytes ''os-image'',
     di_last = bytes ''file-system''\<rparr>"

definition board_TLWA855REV1 :: device_info where
  "board_TLWA855REV1 = \<lparr>
     di_id = Some (bytes ''TLWA855REV1''),
     di_vendor = Some (bytes ('''')),
     di_support_list = bytes (lines_with lf
       [''SupportList:'',
        ''{product_name:TL-WA855RE,product_ver:1.0.0,special_id:00000000}'',
        ''{product_name:TL-WA855RE,product_ver:1.0.0,special_id:55530000}'',
        ''{product_name:TL-WA855RE,product_ver:1.0.0,special_id:45550000}'',
        ''{product_name:TL-WA855RE,product_ver:1.0.0,special_id:4B520000}'',
        ''{product_name:TL-WA855RE,product_ver:1.0.0,special_id:42520000}'',
        ''{product_name:TL-WA855RE,product_ver:1.0.0,special_id:4A500000}'',
        ''{product_name:TL-WA855RE,product_ver:1.0.0,special_id:43410000}'',
        ''{product_name:TL-WA855RE,product_ver:1.0.0,special_id:41550000}'',
        ''{product_name:TL-WA855RE,product_ver:1.0.0,special_id:52550000}'']),
     di_support_trail = 0x00,
     di_soft_ver = None,
     di_partitions = partition_array
       [flash_part ''fs-uboot'' 0x00000 0x20000,
        flash_part ''os-image'' 0x20000 0x150000,
        flash_part ''file-system'' 0x170000 0x240000,
        flash_part ''partition-table'' 0x3b0000 0x02000,
        flash_part ''default-mac'' 0x3c0000 0x00020,
        flash_part ''pin'' 0x3c0100 0x00020,
        flash_part ''product-info'' 0x3c1000 0x01000,
        flash_part ''soft-version'' 0x3c2000 0x00100,
        flash_part ''support-list'' 0x3c3000 0x01000,
        flash_part ''profile'' 0x3c4000 0x08000,
        flash_part ''user-config'' 0x3d0000 0x10000,
        flash_part ''default-config'' 0x3e0000 0x10000,
        flash_part ''radio'' 0x3f0000 0x10000],
     di_first = bytes ''os-image'',
     di_last = bytes ''file-system''\<rparr>"

definition board_TLWR1043NV5 :: device_info where
  "board_TLWR1043NV5 = \<lparr>
     di_id = Some (bytes ''TLWR1043NV5''),
     di_vendor = Some (bytes ('''')),
     di_support_list = bytes (lines_with lf
       [''SupportList:'',
        ''{product_name:TL-WR1043N,product_ver:5.0.0,special_id:45550000}'',
        ''{product_name:TL-WR1043N,product_ver:5.0.0,special_id:55530000}'']),
     di_support_trail = 0x00,
     di_soft_ver = Some (bytes (''soft_ver:1.0.0'' @ lf)),
     di_partitions = partition_array
       [flash_part ''factory-boot'' 0x00000 0x20000,
        flash_part ''fs-uboot'' 0x20000 0x20000,
        flash_part ''os-image'' 0x40000 0x180000,
        flash_part ''file-system'' 0x1c0000 0xd40000,
        flash_part ''default-mac'' 0xf00000 0x00200,
        flash_part ''pin'' 0xf00200 0x00200,
        flash_part ''device-id'' 0xf00400 0x00100,
        flash_part ''product-info'' 0xf00500 0x0fb00,
        flash_part ''soft-version'' 0xf10000 0x01000,
        flash_part ''extra-para'' 0xf11000 0x01000,
        flash_part ''support-list'' 0xf12000 0x0a000,
        flash_part ''profile'' 0xf1c000 0x04000,
        flash_part ''default-config'' 0xf20000 0x10000,
        flash_part ''user-config'' 0xf30000 0x40000,
        flash_part ''qos-db'' 0xf70000 0x40000,
        flash_part ''certificate'' 0xfb0000 0x10000,
        flash_part ''partition-table'' 0xfc0000 0x10000,
        flash_part ''log'' 0xfd0000 0x20000,
        flash_part ''radio'' 0xff0000 0x10000],
     di_first = bytes ''os-image'',
     di_last = bytes ''file-system''\<rparr>"

definition board_TLWR1043NDV4 :: device_info where
  "board_TLWR1043NDV4 = \<lparr>
     di_id = Some (bytes ''TLWR1043NDV4''),
     di_vendor = Some (bytes ('''')),
     di_support_list = bytes (lines_with lf
       [''SupportList:'',
        ''{product_name:TL-WR1043ND,product_ver:4.0.0,special_id:45550000}'']),
     di_support_trail = 0x00,
     di_soft_ver = None,
     di_partitions = partition_array
       [flash_part ''fs-uboot'' 0x00000 0x20000,
        flash_part ''os-image'' 0x20000 0x180000,
        flash_part ''file-system'' 0x1a0000 0xdb0000,
        flash_part ''default-mac'' 0xf50000 0x00200,
        flash_part ''pin'' 0xf50200 0x00200,
        flash_part ''product-info'' 0xf50400 0x0fc00,
        flash_part ''soft-version'' 0xf60000 0x0b000,
        flash_part ''support-list'' 0xf6b000 0x04000,
        flash_part ''profile'' 0xf70000 0x04000,
        flash_part ''default-config'' 0xf74000 0x0b000,
        flash_part ''user-config'' 0xf80000 0x40000,
        flash_part ''partition-table'' 0xfc0000 0x10000,
        flash_part ''log'' 0xfd0000 0x20000,
        flash_part ''radio'' 0xff0000 0x10000],
     di_first = bytes ''os-image'',
     di_last = bytes ''file-system''\<rparr>"

definition board_TL_WR902AC_V1 :: device_info where
  "board_TL_WR902AC_V1 = \<lparr>
     di_id = Some (bytes ''TL-WR902AC-V1''),
     di_vendor = Some (bytes ('''')),
     di_support_list = bytes (lines_with lf
       [''SupportList:'',
        ''{product_name:TL-WR902AC,product_ver:1.0.0,special_id:45550000}'',
        ''{product_name:TL-WR902AC,product_ver:1.0.0,special_id:55530000}'']),
     di_support_trail = 0x00,
     di_soft_ver = None,
     di_partitions = partition_array
       [flash_part ''fs-uboot'' 0x00000 0x20000,
        flash_part ''os-image'' 0x20000 0x180000,
        flash_part ''file-system'' 0x1a0000 0x5b0000,
        flash_part ''default-mac'' 0x750000 0x00200,
        flash_part ''pin'' 0x750200 0x00200,
        flash_part ''product-info'' 0x750400 0x0fc00,
        flash_part ''soft-version'' 0x760000 0x0b000,
        flash_part ''support-list'' 0x76b000 0x04000,
        flash_part ''profile'' 0x770000 0x04000,
        flash_part ''default-config'' 0x774000 0x0b000,
        flash_part ''user-config'' 0x780000 0x40000,
        flash_part ''partition-table'' 0x7c0000 0x10000,
        flash_part ''log'' 0x7d0000 0x20000,
        flash_part ''radio'' 0x7f0000 0x10000],
     di_first = bytes ''os-image'',
     di_last = bytes ''file-system''\<rparr>"

definition board_TLWR942NV1 :: device_info where
  "board_TLWR942NV1 = \<lparr>
     di_id = Some (bytes ''TLWR942NV1''),
     di_vendor = Some (bytes ('''')),
     di_support_list = bytes (lines_with crlf
       [''SupportList:'',
        ''{product_name:TL-WR942N,product_ver:1.0.0,special_id:00000000}'',
        ''{product_name:TL-WR942N,product_ver:1.0.0,special_id:52550000}'']),
     di_support_trail = 0x00,
     di_soft_ver = None,
     di_partitions = partition_array
       [flash_part ''fs-uboot'' 0x00000 0x20000,
        flash_part ''os-image'' 0x20000 0x180000,
        flash_part ''file-system'' 0x1a0000 0xca0000,
        flash_part ''default-mac'' 0xe40000 0x00200,
        flash_part ''pin'' 0xe40200 0x00200,
        flash_part ''product-info'' 0xe40400 0x0fc00,
        flash_part ''partition-table'' 0xe50000 0x10000,
        flash_part ''soft-version'' 0xe60000 0x10000,
        flash_part ''support-list'' 0xe70000 0x10000,
        flash_part ''profile'' 0xe80000 0x10000,
        flash_part ''default-config'' 0xe90000 0x10000,
        flash_part ''user-config'' 0xea0000 0x40000,
        flash_part ''qos-db'' 0xee0000 0x40000,
        flash_part ''certificate'' 0xf20000 0x10000,
        flash_part ''usb-config'' 0xfb0000 0x10000,
        flash_part ''log'' 0xfc0000 0x20000,
        flash_part ''radio-bk'' 0xfe0000 0x10000,
        flash_part ''radio'' 0xff0000 0x10000],
     di_first = bytes ''os-image'',
     di_last = bytes ''file-system''\<rparr>"

definition board_RE350_V1 :: device_info where
  "board_RE350_V1 = \<lparr>
     di_id = Some (bytes ''RE350-V1''),
     di_vendor = Some (bytes ('''')),
     di_support_list = bytes (lines_with lf
       [''SupportList:'',
        ''{product_name:RE350,product_ver:1.0.0,special_id:45550000}'',
        ''{product_name:RE350,product_ver:1.0.0,special_id:00000000}'',
        ''{product_name:RE350,product_ver:1.0.0,special_id:41550000}'',
        ''{product_name:RE350,product_ver:1.0.0,special_id:55530000}'',
        ''{product_name:RE350,product_ver:1.0.0,special_id:43410000}'',
        ''{product_name:RE350,product_ver:1.0.0,special_id:4b520000}'',
        ''{product_name:RE350,product_ver:1.0.0,special_id:4a500000}'']),
     di_support_trail = 0x00,
     di_soft_ver = None,
     di_partitions = partition_array
       [flash_part ''fs-uboot'' 0x00000 0x20000,
        flash_part ''os-image'' 0x20000 0x1c0000,
        flash_part ''file-system'' 0x1e0000 0x420000,
        flash_part ''partition-table'' 0x600000 0x02000,
        flash_part ''default-mac'' 0x610000 0x00020,
        flash_part ''pin'' 0x610100 0x00020,
        flash_part ''product-info'' 0x611100 0x01000,
        flash_part ''soft-version'' 0x620000 0x01000,
        flash_part ''support-list'' 0x621000 0x01000,
        flash_part ''profile'' 0x622000 0x08000,
        flash_part ''user-config'' 0x630000 0x10000,
        flash_part ''default-config'' 0x640000 0x10000,
        flash_part ''radio'' 0x7f0000 0x10000],
     di_first = bytes ''os-image'',
     di_last = bytes ''file-system''\<rparr>"

definition board_RE355 :: device_info where
  "board_RE355 = \<lparr>
     di_id = Some (bytes ''RE355''),
     di_vendor = Some (bytes ('''')),
     di_support_list = bytes (lines_with crlf
       [''SupportList:'',
        ''{product_name:RE355,product_ver:1.0.0,special_id:00000000}'',
        ''{product_name:RE355,product_ver:1.0.0,special_id:55530000}'',
        ''{product_name:RE355,product_ver:1.0.0,special_id:45550000}'',
        ''{product_name:RE355,product_ver:1.0.0,special_id:4A500000}'',
        ''{product_name:RE355,product_ver:1.0.0,special_id:43410000}'',
        ''{product_name:RE355,product_ver:1.0.0,special_id:41550000}'',
        ''{product_name:RE355,product_ver:1.0.0,special_id:4B520000}'',
        ''{product_name:RE355,product_ver:1.0.0,special_id:55534100}'']),
     di_support_trail = 0x00,
     di_soft_ver = None,
     di_partitions = partition_array
       [flash_part ''fs-uboot'' 0x00000 0x20000,
        flash_part ''os-image'' 0x20000 0x180000,
        flash_part ''file-system'' 0x1a0000 0x460000,
        flash_part ''partition-table'' 0x600000 0x02000,
        flash_part ''default-mac'' 0x610000 0x00020,
        flash_part ''pin'' 0x610100 0x00020,
        flash_part ''product-info'' 0x611100 0x01000,
        flash_part ''soft-version'' 0x620000 0x01000,
        flash_part ''support-list'' 0x621000 0x01000,
        flash_part ''profile'' 0x622000 0x08000,
        flash_part ''user-config'' 0x630000 0x10000,
        flash_part ''default-config'' 0x640000 0x10000,
        flash_part ''radio'' 0x7f0000 0x10000],
     di_first = bytes ''os-image'',
     di_last = bytes ''file-system''\<rparr>"

definition board_RE450 :: device_info where
  "board_RE450 = \<lparr>
     di_id = Some (bytes ''RE450''),
     di_vendor = Some (bytes ('''')),
     di_support_list = bytes (lines_with crlf
       [''SupportList:'',
        ''{product_name:RE450,product_ver:1.0.0,special_id:00000000}'',
        ''{product_name:RE450,product_ver:1.0.0,special_id:55530000}'',
        ''{product_name:RE450,product_ver:1.0.0,special_id:45550000}'',
        ''{product_name:RE450,product_ver:1.0.0,special_id:4A500000}'',
        ''{product_name:RE450,product_ver:1.0.0,special_id:43410000}'',
        ''{product_name:RE450,product_ver:1.0.0,special_id:41550000}'',
        ''{product_name:RE450,product_ver:1.0.0,special_id:4B520000}'',
        ''{product_name:RE450,product_ver:1.0.0,special_id:55534100}'']),
     di_support_trail = 0x00,
     di_soft_ver = None,
     di_partitions = partition_array
       [flash_part ''fs-uboot'' 0x00000 0x20000,
        flash_part ''os-image'' 0x20000 0x180000,
        flash_part ''file-system'' 0x1a0000 0x460000,
        flash_part ''partition-table'' 0x600000 0x02000,
        flash_part ''default-mac'' 0x610000 0x00020,
        flash_part ''pin'' 0x610100 0x00020,
        flash_part ''product-info'' 0x611100 0x01000,
        flash_part ''soft-version'' 0x620000 0x01000,
        flash_part ''support-list'' 0x621000 0x01000,
        flash_part ''profile'' 0x622000 0x08000,
        flash_part ''user-config'' 0x630000 0x10000,
        flash_part ''default-config'' 0x640000 0x10000,
        flash_part ''radio'' 0x7f0000 0x10000],
     di_first = bytes ''os-image'',
     di_last = bytes ''file-system''\<rparr>"

text \<open>The empty initialiser that ends the table: its \<open>id\<close> is a null pointer.\<close>

definition board_null :: device_info where
  "board_null = \<lparr>di_id = None, di_vendor = None, di_support_list = [], di_support_trail = 0,
     di_soft_ver = None, di_partitions = partition_array [], di_first = [], di_last = []\<rparr>"

definition board_table :: "device_info list" where
  "board_table =
    [board_CPE210,
     board_CPE510,
     board_WBS210,
     board_WBS510,
     board_C2600,
     board_ARCHER_C25_V1,
     board_ARCHER_C58_V1,
     board_ARCHER_C59_V1,
     board_ARCHER_C60_V1,
     board_ARCHER_C60_V2,
     board_ARCHER_C5_V2,
     board_ARCHER_C7_V4,
     board_ARCHER_C7_V5,
     board_ARCHERC9,
     board_EAP120,
     board_TLWA850REV2,
     board_TLWA855REV1,
     board_TLWR1043NV5,
     board_TLWR1043NDV4,
     board_TL_WR902AC_V1,
     board_TLWR942NV1,
     board_RE350_V1,
     board_RE355,
     board_RE450]"

definition boards :: "device_info list" where
  "boards = board_table @ [board_null]"

lemmas board_defs =
  board_CPE210_def
  board_CPE510_def
  board_WBS210_def
  board_WBS510_def
  board_C2600_def
  board_ARCHER_C25_V1_def
  board_ARCHER_C58_V1_def
  board_ARCHER_C59_V1_def
  board_ARCHER_C60_V1_def
  board_ARCHER_C60_V2_def
  board_ARCHER_C5_V2_def
  board_ARCHER_C7_V4_def
  board_ARCHER_C7_V5_def
  board_ARCHERC9_def
  board_EAP120_def
  board_TLWA850REV2_def
  board_TLWA855REV1_def
  board_TLWR1043NV5_def
  board_TLWR1043NDV4_def
  board_TL_WR902AC_V1_def
  board_TLWR942NV1_def
  board_RE350_V1_def
  board_RE355_def
  board_RE450_def

section \<open>The search\<close>

fun find_board_from :: "device_info list \<Rightarrow> cstr \<Rightarrow> device_info option c" where
  "find_board_from [] i = Inl Undefined"
| "find_board_from (b # bs) i =
     (case di_id b of
        None \<Rightarrow> Inr None
      | Some i' \<Rightarrow> if strcasecmp_eq i i' then Inr (Some b) else find_board_from bs i)"

definition find_board :: "cstr \<Rightarrow> device_info option c" where
  "find_board i = find_board_from boards i"

section \<open>The search finds exactly the listed boards\<close>

lemma find_board_from_Some:
  "find_board_from bs i = Inr (Some b) \<Longrightarrow>
     b \<in> set bs \<and> (\<exists>i'. di_id b = Some i' \<and> strcasecmp_eq i i')"
  by (induction bs i rule: find_board_from.induct) (auto split: option.splits if_splits)

lemma find_board_from_terminated:
  assumes "\<forall>b \<in> set bs. di_id b \<noteq> None" "di_id z = None"
  shows "find_board_from (bs @ [z]) i =
     Inr (find (\<lambda>b. strcasecmp_eq i (the (di_id b))) bs)"
  using assms(1)
  by (induction bs) (use assms(2) in \<open>auto split: option.splits\<close>)

lemma board_ids:
  "di_id board_CPE210 = Some (bytes ''CPE210'')"
  "di_id board_CPE510 = Some (bytes ''CPE510'')"
  "di_id board_WBS210 = Some (bytes ''WBS210'')"
  "di_id board_WBS510 = Some (bytes ''WBS510'')"
  "di_id board_C2600 = Some (bytes ''C2600'')"
  "di_id board_ARCHER_C25_V1 = Some (bytes ''ARCHER-C25-V1'')"
  "di_id board_ARCHER_C58_V1 = Some (bytes ''ARCHER-C58-V1'')"
  "di_id board_ARCHER_C59_V1 = Some (bytes ''ARCHER-C59-V1'')"
  "di_id board_ARCHER_C60_V1 = Some (bytes ''ARCHER-C60-V1'')"
  "di_id board_ARCHER_C60_V2 = Some (bytes ''ARCHER-C60-V2'')"
  "di_id board_ARCHER_C5_V2 = Some (bytes ''ARCHER-C5-V2'')"
  "di_id board_ARCHER_C7_V4 = Some (bytes ''ARCHER-C7-V4'')"
  "di_id board_ARCHER_C7_V5 = Some (bytes ''ARCHER-C7-V5'')"
  "di_id board_ARCHERC9 = Some (bytes ''ARCHERC9'')"
  "di_id board_EAP120 = Some (bytes ''EAP120'')"
  "di_id board_TLWA850REV2 = Some (bytes ''TLWA850REV2'')"
  "di_id board_TLWA855REV1 = Some (bytes ''TLWA855REV1'')"
  "di_id board_TLWR1043NV5 = Some (bytes ''TLWR1043NV5'')"
  "di_id board_TLWR1043NDV4 = Some (bytes ''TLWR1043NDV4'')"
  "di_id board_TL_WR902AC_V1 = Some (bytes ''TL-WR902AC-V1'')"
  "di_id board_TLWR942NV1 = Some (bytes ''TLWR942NV1'')"
  "di_id board_RE350_V1 = Some (bytes ''RE350-V1'')"
  "di_id board_RE355 = Some (bytes ''RE355'')"
  "di_id board_RE450 = Some (bytes ''RE450'')"
  by (simp_all only: board_defs device_info.select_convs)

lemma board_table_ids: "\<forall>b \<in> set board_table. di_id b \<noteq> None"
  by (simp add: board_table_def board_ids)

lemma find_board_eq:
  "find_board i = Inr (find (\<lambda>b. strcasecmp_eq i (the (di_id b))) board_table)"
  by (simp add: find_board_def boards_def find_board_from_terminated board_table_ids board_null_def)

definition board_keys :: "cstr list" where
  "board_keys = map (\<lambda>b. map to_lower (the (di_id b))) board_table"

lemma distinct_board_keys: "distinct board_keys"
  by (simp add: board_keys_def board_table_def board_ids bytes_def to_lower_def)

lemma find_by_distinct_key:
  assumes "distinct (map k bs)" "b \<in> set bs"
  shows "find (\<lambda>b'. k b = k b') bs = Some b"
  using assms by (induction bs) (auto simp: image_iff)

lemma find_board_listed:
  assumes "b \<in> set board_table" "di_id b = Some i'" "strcasecmp_eq i i'"
  shows "find_board i = Inr (Some b)"
proof -
  have "map to_lower i = map to_lower (the (di_id b))"
    using assms(2,3) by (simp add: strcasecmp_eq_def)
  then have "find_board i =
      Inr (find (\<lambda>b'. map to_lower (the (di_id b)) = map to_lower (the (di_id b'))) board_table)"
    by (simp add: find_board_eq strcasecmp_eq_def)
  then show ?thesis
    using find_by_distinct_key [OF distinct_board_keys [unfolded board_keys_def] assms(1)] by simp
qed

section \<open>What holds of every layout\<close>

text \<open>
  The facts about a layout that the image builders rely on: a terminated array of distinct,
  disjoint partitions; the sysupgrade range in order; room for the parts the tool generates.
\<close>

definition flash_lookup :: "flash_partition_entry list \<Rightarrow> cstr \<Rightarrow> flash_partition_entry option" where
  "flash_lookup ps n = find (\<lambda>p. fp_name p = Some n) ps"

definition room_in :: "flash_partition_entry list \<Rightarrow> cstr \<Rightarrow> nat \<Rightarrow> bool" where
  "room_in ps n k \<longleftrightarrow>
     (case flash_lookup ps n of None \<Rightarrow> False | Some p \<Rightarrow> k \<le> unat (fp_size p))"

definition layout_ok :: "device_info \<Rightarrow> bool" where
  "layout_ok b \<longleftrightarrow>
     (let ps = live_flash (di_partitions b) in
      terminated_flash (di_partitions b) \<and> length ps \<le> MAX_PARTITIONS \<and>
      flash_ordered ps \<and> distinct (map fp_name ps) \<and>
      (\<forall>p \<in> set ps. unat (fp_base p) + unat (fp_size p) \<le> 0x2000000) \<and>
      (\<forall>p \<in> set ps. wordlike (the (fp_name p)) \<and> length (the (fp_name p)) \<le> 20))"

definition generated_parts_fit :: "device_info \<Rightarrow> bool" where
  "generated_parts_fit b \<longleftrightarrow>
     (let ps = live_flash (di_partitions b) in
      room_in ps (bytes ''partition-table'') 0x800 \<and>
      room_in ps (bytes ''soft-version'')
        (case di_soft_ver b of None \<Rightarrow> 21 | Some s \<Rightarrow> length s + 10) \<and>
      room_in ps (bytes ''support-list'') (length (di_support_list b) + 9) \<and>
      room_in ps (bytes ''os-image'') 0 \<and> room_in ps (bytes ''file-system'') 0)"

lemmas layout_check_defs =
  room_in_def flash_lookup_def MAX_PARTITIONS_def
  lines_with_def crlf_def lf_def inj_bytes wordlike_bytes

lemma board_CPE210_ok: "layout_ok board_CPE210" "generated_parts_fit board_CPE210"
  unfolding layout_ok_def generated_parts_fit_def board_CPE210_def device_info.select_convs
  by (simp_all add: layout_check_defs)

lemma board_CPE510_ok: "layout_ok board_CPE510" "generated_parts_fit board_CPE510"
  unfolding layout_ok_def generated_parts_fit_def board_CPE510_def device_info.select_convs
  by (simp_all add: layout_check_defs)

lemma board_WBS210_ok: "layout_ok board_WBS210" "generated_parts_fit board_WBS210"
  unfolding layout_ok_def generated_parts_fit_def board_WBS210_def device_info.select_convs
  by (simp_all add: layout_check_defs)

lemma board_WBS510_ok: "layout_ok board_WBS510" "generated_parts_fit board_WBS510"
  unfolding layout_ok_def generated_parts_fit_def board_WBS510_def device_info.select_convs
  by (simp_all add: layout_check_defs)

lemma board_C2600_ok: "layout_ok board_C2600" "generated_parts_fit board_C2600"
  unfolding layout_ok_def generated_parts_fit_def board_C2600_def device_info.select_convs
  by (simp_all add: layout_check_defs)

lemma board_ARCHER_C25_V1_ok: "layout_ok board_ARCHER_C25_V1" "generated_parts_fit board_ARCHER_C25_V1"
  unfolding layout_ok_def generated_parts_fit_def board_ARCHER_C25_V1_def device_info.select_convs
  by (simp_all add: layout_check_defs)

lemma board_ARCHER_C58_V1_ok: "layout_ok board_ARCHER_C58_V1" "generated_parts_fit board_ARCHER_C58_V1"
  unfolding layout_ok_def generated_parts_fit_def board_ARCHER_C58_V1_def device_info.select_convs
  by (simp_all add: layout_check_defs)

lemma board_ARCHER_C59_V1_ok: "layout_ok board_ARCHER_C59_V1" "generated_parts_fit board_ARCHER_C59_V1"
  unfolding layout_ok_def generated_parts_fit_def board_ARCHER_C59_V1_def device_info.select_convs
  by (simp_all add: layout_check_defs)

lemma board_ARCHER_C60_V1_ok: "layout_ok board_ARCHER_C60_V1" "generated_parts_fit board_ARCHER_C60_V1"
  unfolding layout_ok_def generated_parts_fit_def board_ARCHER_C60_V1_def device_info.select_convs
  by (simp_all add: layout_check_defs)

lemma board_ARCHER_C60_V2_ok: "layout_ok board_ARCHER_C60_V2" "generated_parts_fit board_ARCHER_C60_V2"
  unfolding layout_ok_def generated_parts_fit_def board_ARCHER_C60_V2_def device_info.select_convs
  by (simp_all add: layout_check_defs)

lemma board_ARCHER_C5_V2_ok: "layout_ok board_ARCHER_C5_V2" "generated_parts_fit board_ARCHER_C5_V2"
  unfolding layout_ok_def generated_parts_fit_def board_ARCHER_C5_V2_def device_info.select_convs
  by (simp_all add: layout_check_defs)

lemma board_ARCHER_C7_V4_ok: "layout_ok board_ARCHER_C7_V4" "generated_parts_fit board_ARCHER_C7_V4"
  unfolding layout_ok_def generated_parts_fit_def board_ARCHER_C7_V4_def device_info.select_convs
  by (simp_all add: layout_check_defs)

lemma board_ARCHER_C7_V5_ok: "layout_ok board_ARCHER_C7_V5" "generated_parts_fit board_ARCHER_C7_V5"
  unfolding layout_ok_def generated_parts_fit_def board_ARCHER_C7_V5_def device_info.select_convs
  by (simp_all add: layout_check_defs)

lemma board_ARCHERC9_ok: "layout_ok board_ARCHERC9" "generated_parts_fit board_ARCHERC9"
  unfolding layout_ok_def generated_parts_fit_def board_ARCHERC9_def device_info.select_convs
  by (simp_all add: layout_check_defs)

lemma board_EAP120_ok: "layout_ok board_EAP120" "generated_parts_fit board_EAP120"
  unfolding layout_ok_def generated_parts_fit_def board_EAP120_def device_info.select_convs
  by (simp_all add: layout_check_defs)

lemma board_TLWA850REV2_ok: "layout_ok board_TLWA850REV2" "generated_parts_fit board_TLWA850REV2"
  unfolding layout_ok_def generated_parts_fit_def board_TLWA850REV2_def device_info.select_convs
  by (simp_all add: layout_check_defs)

lemma board_TLWA855REV1_ok: "layout_ok board_TLWA855REV1" "generated_parts_fit board_TLWA855REV1"
  unfolding layout_ok_def generated_parts_fit_def board_TLWA855REV1_def device_info.select_convs
  by (simp_all add: layout_check_defs)

lemma board_TLWR1043NV5_ok: "layout_ok board_TLWR1043NV5" "generated_parts_fit board_TLWR1043NV5"
  unfolding layout_ok_def generated_parts_fit_def board_TLWR1043NV5_def device_info.select_convs
  by (simp_all add: layout_check_defs)

lemma board_TLWR1043NDV4_ok: "layout_ok board_TLWR1043NDV4" "generated_parts_fit board_TLWR1043NDV4"
  unfolding layout_ok_def generated_parts_fit_def board_TLWR1043NDV4_def device_info.select_convs
  by (simp_all add: layout_check_defs)

lemma board_TL_WR902AC_V1_ok: "layout_ok board_TL_WR902AC_V1" "generated_parts_fit board_TL_WR902AC_V1"
  unfolding layout_ok_def generated_parts_fit_def board_TL_WR902AC_V1_def device_info.select_convs
  by (simp_all add: layout_check_defs)

lemma board_TLWR942NV1_ok: "layout_ok board_TLWR942NV1" "generated_parts_fit board_TLWR942NV1"
  unfolding layout_ok_def generated_parts_fit_def board_TLWR942NV1_def device_info.select_convs
  by (simp_all add: layout_check_defs)

lemma board_RE350_V1_ok: "layout_ok board_RE350_V1" "generated_parts_fit board_RE350_V1"
  unfolding layout_ok_def generated_parts_fit_def board_RE350_V1_def device_info.select_convs
  by (simp_all add: layout_check_defs)

lemma board_RE355_ok: "layout_ok board_RE355" "generated_parts_fit board_RE355"
  unfolding layout_ok_def generated_parts_fit_def board_RE355_def device_info.select_convs
  by (simp_all add: layout_check_defs)

lemma board_RE450_ok: "layout_ok board_RE450" "generated_parts_fit board_RE450"
  unfolding layout_ok_def generated_parts_fit_def board_RE450_def device_info.select_convs
  by (simp_all add: layout_check_defs)

lemmas board_oks =
  board_CPE210_ok
  board_CPE510_ok
  board_WBS210_ok
  board_WBS510_ok
  board_C2600_ok
  board_ARCHER_C25_V1_ok
  board_ARCHER_C58_V1_ok
  board_ARCHER_C59_V1_ok
  board_ARCHER_C60_V1_ok
  board_ARCHER_C60_V2_ok
  board_ARCHER_C5_V2_ok
  board_ARCHER_C7_V4_ok
  board_ARCHER_C7_V5_ok
  board_ARCHERC9_ok
  board_EAP120_ok
  board_TLWA850REV2_ok
  board_TLWA855REV1_ok
  board_TLWR1043NV5_ok
  board_TLWR1043NDV4_ok
  board_TL_WR902AC_V1_ok
  board_TLWR942NV1_ok
  board_RE350_V1_ok
  board_RE355_ok
  board_RE450_ok

lemma boards_layout_ok: "b \<in> set board_table \<Longrightarrow> layout_ok b"
  by (auto simp: board_table_def board_oks)

lemma boards_generated_fit: "b \<in> set board_table \<Longrightarrow> generated_parts_fit b"
  by (auto simp: board_table_def board_oks)

section \<open>Properties\<close>

lemma find_board_Some_iff:
  "find_board i = Inr (Some b) \<longleftrightarrow> b \<in> set board_table \<and> strcasecmp_eq i (the (di_id b))"
proof
  assume "find_board i = Inr (Some b)"
  then show "b \<in> set board_table \<and> strcasecmp_eq i (the (di_id b))"
    by (auto simp: find_board_eq find_Some_iff)
next
  assume b: "b \<in> set board_table \<and> strcasecmp_eq i (the (di_id b))"
  then obtain i' where "di_id b = Some i'" using board_table_ids by fastforce
  with b show "find_board i = Inr (Some b)" by (simp add: find_board_listed)
qed

text \<open>
  C17 (functional): \<open>find_board\<close> returns, for every name, the one board of the table
  whose id equals it up to case, and a null pointer exactly when there is none; no two boards
  share an id up to case, and the scan never leaves the table.
\<close>

theorem find_board_correct:
  "(find_board i = Inr (Some b) \<longleftrightarrow> b \<in> set board_table \<and> strcasecmp_eq i (the (di_id b))) \<and>
   (find_board i = Inr None \<longleftrightarrow> (\<forall>b' \<in> set board_table. \<not> strcasecmp_eq i (the (di_id b'))))"
  by (simp only: find_board_Some_iff) (auto simp: find_board_eq find_None_iff)

theorem find_board_correct_witness:
  "find_board (bytes ''Archer-c7-v4'') = Inr (Some board_ARCHER_C7_V4) \<and>
   find_board (bytes ''ARCHER-C7'') = Inr None"
proof -
  have "board_ARCHER_C7_V4 \<in> set board_table" by (simp add: board_table_def)
  moreover have "strcasecmp_eq (bytes ''Archer-c7-v4'') (the (di_id board_ARCHER_C7_V4))"
    by (simp add: board_ids strcasecmp_eq_def bytes_def to_lower_def)
  moreover have "\<forall>b' \<in> set board_table. \<not> strcasecmp_eq (bytes ''ARCHER-C7'') (the (di_id b'))"
    by (simp add: board_table_def board_ids strcasecmp_eq_def bytes_def to_lower_def)
  ultimately show ?thesis
    using find_board_correct [of "bytes ''Archer-c7-v4''" board_ARCHER_C7_V4]
      find_board_correct [of "bytes ''ARCHER-C7''"] by blast
qed

text \<open>
  C16 (invariant): in the layout of every board the tool can be asked for, two partitions
  never share a byte of flash or a name, every partition ends within the first 32 MiB of
  flash (so base plus size never wraps in the tool's 32-bit arithmetic), and the array is
  terminated within its bound.
\<close>

theorem board_layouts_disjoint:
  assumes "find_board i = Inr (Some b)" "ps = live_flash (di_partitions b)"
    and "j < k" "k < length ps"
  shows "terminated_flash (di_partitions b) \<and> length ps \<le> MAX_PARTITIONS \<and>
     flash_range (ps ! j) \<inter> flash_range (ps ! k) = {} \<and> fp_name (ps ! j) \<noteq> fp_name (ps ! k) \<and>
     (\<forall>p \<in> set ps. unat (fp_base p) + unat (fp_size p) \<le> 0x2000000 \<and>
        unat (fp_base p + fp_size p) = unat (fp_base p) + unat (fp_size p))"
proof -
  have ok: "layout_ok b"
    using assms(1) by (simp add: find_board_Some_iff boards_layout_ok)
  then have "distinct (map fp_name ps)" "flash_ordered ps"
    and ends: "unat (fp_base p) + unat (fp_size p) \<le> 0x2000000" if "p \<in> set ps" for p
    using assms(2) that by (simp_all add: layout_ok_def Let_def)
  moreover have "unat (fp_base p + fp_size p) = unat (fp_base p) + unat (fp_size p)"
    if "p \<in> set ps" for p
    using ends [OF that] by (simp add: unat_word_ariths)
  moreover have "map fp_name ps ! j \<noteq> map fp_name ps ! k" if "distinct (map fp_name ps)"
    using that assms(3,4) by (subst nth_eq_iff_index_eq) simp_all
  ultimately show ?thesis
    using ok assms(2-4) flash_ordered_disjoint [of ps j k] by (simp add: layout_ok_def Let_def)
qed

theorem board_layouts_disjoint_witness:
  "flash_range (live_flash (di_partitions board_ARCHER_C7_V4) ! 2) \<inter>
   flash_range (live_flash (di_partitions board_ARCHER_C7_V4) ! 3) = {}"
proof -
  have "find_board (bytes ''ARCHER-C7-V4'') = Inr (Some board_ARCHER_C7_V4)"
    by (simp add: find_board_Some_iff board_table_def board_ids)
  moreover have "length (live_flash (di_partitions board_ARCHER_C7_V4)) = 15"
    by (simp add: board_ARCHER_C7_V4_def)
  ultimately show ?thesis
    using board_layouts_disjoint [of "bytes ''ARCHER-C7-V4''" board_ARCHER_C7_V4 _ 2 3] by simp
qed

end
