(* ===== verification/ImageParts.thy ===== *)
theory ImageParts
  imports Boards "HOL-Library.Signed_Division"
begin

text \<open>
  The functions of tools/tplink-safeloader/tplink-safeloader.c that make one image partition
  each: the flash partition table, the soft-version structure, the support list, file contents
  and constant data. What they take from outside (memory from \<open>malloc\<close> with its arbitrary
  contents, files, the clock) is the record \<open>c_env\<close>, a parameter of the model.
\<close>

section \<open>The environment\<close>

record tm =
  tm_year :: int
  tm_mon :: int
  tm_mday :: int

text \<open>
  \<open>malloc_ok n\<close>: a request of n bytes succeeds. \<open>fresh x i\<close>: what byte i of the
  uninitialised object x holds, where x names the object. \<open>stat_size\<close> and
  \<open>open_read\<close> are what \<open>stat\<close> and \<open>fopen\<close> find under a path, independently of
  each other, since a file can change in between or be unreadable.
\<close>

record c_env =
  malloc_ok :: "nat \<Rightarrow> bool"
  fresh :: "string \<Rightarrow> nat \<Rightarrow> byte"
  stat_size :: "cstr \<Rightarrow> nat option"
  open_read :: "cstr \<Rightarrow> byte list option"
  can_write :: "cstr \<Rightarrow> bool"
  clock :: "int option"
  localtime :: "int \<Rightarrow> tm"

definition uninit :: "c_env \<Rightarrow> string \<Rightarrow> nat \<Rightarrow> byte list" where
  "uninit env x n = map (fresh env x) [0..<n]"

lemma length_uninit [simp]: "length (uninit env x n) = n"
  by (simp add: uninit_def)

section \<open>Allocation and 32-bit stores\<close>

definition put32 :: "byte list \<Rightarrow> nat \<Rightarrow> u32 \<Rightarrow> byte list c" where
  "put32 buf off val = mem_write buf off (be32 val)"

definition alloc_image_partition :: "c_env \<Rightarrow> string \<Rightarrow> nat \<Rightarrow> image_partition_entry c" where
  "alloc_image_partition env name len =
     (if malloc_ok env len
      then Inr \<lparr>ip_name = Some (bytes name), ip_size = len, ip_data = uninit env name len\<rparr>
      else Inl (ErrorExit ''malloc''))"

lemma alloc_Inr_iff [c_outcome]:
  "alloc_image_partition env name len = Inr e \<longleftrightarrow>
     malloc_ok env len \<and>
     e = \<lparr>ip_name = Some (bytes name), ip_size = len, ip_data = uninit env name len\<rparr>"
  by (auto simp: alloc_image_partition_def)

section \<open>The flash partition table\<close>

text \<open>One line of the table, \<open>partition %s base 0x%05x size 0x%05x\<close> and a newline.\<close>

definition flash_line :: "cstr \<Rightarrow> u32 \<Rightarrow> u32 \<Rightarrow> byte list" where
  "flash_line n b s =
     bytes ''partition '' @ n @ bytes '' base 0x'' @ fmt_05x b @ bytes '' size 0x'' @ fmt_05x s @ [10]"

text \<open>
  The loop of \<open>make_partition_table\<close>, on the buffer and the write position. An array
  without a null name runs off its end. The unsigned comparison \<open>w > len - 1\<close> is made in
  \<open>size_t\<close>: it fails for every \<open>w\<close> when \<open>len\<close> is zero.
\<close>

fun partition_table_loop ::
  "byte list \<Rightarrow> nat \<Rightarrow> flash_partition_entry list \<Rightarrow> (byte list \<times> nat) c" where
  "partition_table_loop buf s [] = Inl Undefined"
| "partition_table_loop buf s (p # ps) =
     (case fp_name p of
        None \<Rightarrow> Inr (buf, s)
      | Some n \<Rightarrow>
          let len = length buf - s;
              text = flash_line n (fp_base p) (fp_size p);
              w = length text
          in cbind (snprintf_at buf s len text) (\<lambda>buf'.
             cbind (error_if (len \<noteq> 0 \<and> w > len - 1) ''flash partition table overflow?'') (\<lambda>_.
             partition_table_loop buf' (s + w) ps)))"

definition make_partition_table :: "c_env \<Rightarrow> flash_partition_entry list \<Rightarrow> image_partition_entry c" where
  "make_partition_table env ps =
     cbind (alloc_image_partition env ''partition-table'' 0x800) (\<lambda>entry.
     cbind (mem_write (ip_data entry) 0 [0x00, 0x04, 0x00, 0x00]) (\<lambda>buf.
     cbind (partition_table_loop buf 4 ps) (\<lambda>(buf', s).
     (let s' = s + 1 in
      cbind (mem_write buf' s' (replicate (ip_size entry - s') 0xff)) (\<lambda>data.
      Inr (entry\<lparr>ip_data := data\<rparr>))))))"

section \<open>The soft-version partition\<close>

definition bcd :: "byte \<Rightarrow> byte" where
  "bcd v = of_nat (0x10 * (unat v div 10) + unat v mod 10)"

text \<open>
  \<open>struct soft_version\<close> is packed: 21 bytes. \<open>source_date_epoch\<close> is the static
  variable of that name, -1 when unset; the arguments of \<open>bcd\<close> are \<open>int\<close>s cut to a byte.
\<close>

definition soft_version_bytes :: "tm \<Rightarrow> u32 \<Rightarrow> byte list" where
  "soft_version_bytes t rv =
     be32 0x0000000c @ [0, 0, 0, 0] @ [0xff] @ [0, 0, 0] @
     [bcd (of_int ((1900 + tm_year t) sdiv 100)), bcd (of_int (tm_year t smod 100)),
      bcd (of_int (tm_mon t + 1)), bcd (of_int (tm_mday t))] @
     be32 rv @ [0xff]"

definition make_soft_version :: "c_env \<Rightarrow> int \<Rightarrow> u32 \<Rightarrow> image_partition_entry c" where
  "make_soft_version env source_date_epoch rv =
     cbind (alloc_image_partition env ''soft-version'' 21) (\<lambda>entry.
     cbind (if source_date_epoch \<noteq> -1 then Inr source_date_epoch
            else case clock env of None \<Rightarrow> Inl (ErrorExit ''time'') | Some t \<Rightarrow> Inr t) (\<lambda>t.
     cbind (mem_write (ip_data entry) 0 (soft_version_bytes (localtime env t) rv)) (\<lambda>data.
     Inr (entry\<lparr>ip_data := data\<rparr>))))"

definition make_soft_version_from_string :: "c_env \<Rightarrow> cstr \<Rightarrow> image_partition_entry c" where
  "make_soft_version_from_string env soft_ver =
     (let ver_len = of_nat (length soft_ver + 1) :: u32;
          partition_len = 2 * 4 + unat ver_len + 1
      in cbind (alloc_image_partition env ''soft-version'' partition_len) (\<lambda>entry.
         cbind (put32 (ip_data entry) 0 ver_len) (\<lambda>d1.
         cbind (put32 d1 4 0) (\<lambda>d2.
         cbind (mem_write d2 8 (take (unat ver_len) (soft_ver @ [0]))) (\<lambda>d3.
         cbind (mem_write d3 (partition_len - 1) [0]) (\<lambda>data.
         Inr (entry\<lparr>ip_data := data\<rparr>)))))))"

section \<open>The support list\<close>

definition make_support_list :: "c_env \<Rightarrow> device_info \<Rightarrow> image_partition_entry c" where
  "make_support_list env info =
     (let len = length (di_support_list info) in
      cbind (alloc_image_partition env ''support-list'' (len + 9)) (\<lambda>entry.
      cbind (put32 (ip_data entry) 0 (of_nat len)) (\<lambda>d1.
      cbind (mem_write d1 4 (replicate 4 0)) (\<lambda>d2.
      cbind (mem_write d2 8 (di_support_list info)) (\<lambda>d3.
      cbind (mem_write d3 (len + 8) [di_support_trail info]) (\<lambda>data.
      Inr (entry\<lparr>ip_data := data\<rparr>)))))))"

section \<open>Partitions from files\<close>

definition jffs2_eof_mark :: "byte list" where
  "jffs2_eof_mark = [0xde, 0xad, 0xc0, 0xde]"

text \<open>The macro \<open>ALIGN\<close> on a \<open>size_t\<close>.\<close>

definition ALIGN :: "u64 \<Rightarrow> u64 \<Rightarrow> u64" where
  "ALIGN x a = (x + a - 1) AND NOT (a - 1)"

definition align_64k :: "nat \<Rightarrow> nat" where
  "align_64k len = unat (ALIGN (of_nat len) 0x10000)"

text \<open>
  \<open>fread(p, n, 1, file) != 1\<close> is an error when fewer than n bytes are left, and also when
  n is zero, for which \<open>fread\<close> returns zero.
\<close>

definition fread_whole :: "c_env \<Rightarrow> cstr \<Rightarrow> nat \<Rightarrow> byte list c" where
  "fread_whole env filename n =
     (case open_read env filename of
        None \<Rightarrow> Inl (ErrorExit ''unable to open file'')
      | Some content \<Rightarrow>
          if 0 < n \<and> n \<le> length content then Inr (take n content)
          else Inl (ErrorExit ''unable to read file''))"

definition stat_file :: "c_env \<Rightarrow> cstr \<Rightarrow> nat c" where
  "stat_file env filename =
     (case stat_size env filename of
        None \<Rightarrow> Inl (ErrorExit ''unable to stat file'') | Some n \<Rightarrow> Inr n)"

text \<open>The end of a partition for jffs2: 0xff up to the mark in its last four bytes.\<close>

definition put_jffs2_eof :: "byte list \<Rightarrow> nat \<Rightarrow> byte list c" where
  "put_jffs2_eof data eof =
     (let stop = length data in
      cbind (defined_if (eof + 4 \<le> stop)) (\<lambda>_.
      cbind (mem_write data eof (replicate (stop - eof - 4) 0xff)) (\<lambda>d1.
      mem_write d1 (stop - 4) jffs2_eof_mark)))"

definition read_file :: "c_env \<Rightarrow> string \<Rightarrow> cstr \<Rightarrow> bool \<Rightarrow> image_partition_entry c" where
  "read_file env part_name filename add_jffs2_eof =
     cbind (stat_file env filename) (\<lambda>st_size.
     (let len = (if add_jffs2_eof then align_64k st_size + 4 else st_size) in
      cbind (alloc_image_partition env part_name len) (\<lambda>entry.
      cbind (fread_whole env filename st_size) (\<lambda>content.
      cbind (mem_write (ip_data entry) 0 content) (\<lambda>d1.
      cbind (if add_jffs2_eof then put_jffs2_eof d1 st_size else Inr d1) (\<lambda>data.
      Inr (entry\<lparr>ip_data := data\<rparr>)))))))"

text \<open>
  \<open>read_file_split2\<close>: the size of the first file is rounded up to 64 KiB before the
  second is added, but the second is read in right behind the first.
\<close>

definition read_file_split2 ::
  "c_env \<Rightarrow> string \<Rightarrow> cstr \<Rightarrow> cstr \<Rightarrow> bool \<Rightarrow> image_partition_entry c" where
  "read_file_split2 env part_name rootfn kernelfn add_jffs2_eof =
     cbind (stat_file env rootfn) (\<lambda>st_size1.
     cbind (stat_file env kernelfn) (\<lambda>st_size2.
     (let len0 = align_64k st_size1 + st_size2;
          len = (if add_jffs2_eof then align_64k len0 + 4 else len0) in
      cbind (alloc_image_partition env part_name len) (\<lambda>entry.
      cbind (fread_whole env rootfn st_size1) (\<lambda>content1.
      cbind (mem_write (ip_data entry) 0 content1) (\<lambda>d1.
      cbind (fread_whole env kernelfn st_size2) (\<lambda>content2.
      cbind (mem_write d1 st_size1 content2) (\<lambda>d2.
      cbind (if add_jffs2_eof then put_jffs2_eof d2 (st_size1 + st_size2) else Inr d2) (\<lambda>data.
      Inr (entry\<lparr>ip_data := data\<rparr>)))))))))) "

definition put_data :: "c_env \<Rightarrow> string \<Rightarrow> byte list \<Rightarrow> nat \<Rightarrow> image_partition_entry c" where
  "put_data env part_name datain len =
     cbind (alloc_image_partition env part_name len) (\<lambda>entry.
     cbind (mem_read datain 0 len) (\<lambda>chunk.
     cbind (mem_write (ip_data entry) 0 chunk) (\<lambda>data.
     Inr (entry\<lparr>ip_data := data\<rparr>))))"

section \<open>The partition table that is written\<close>

definition flash_entry_line :: "flash_partition_entry \<Rightarrow> byte list" where
  "flash_entry_line p = flash_line (the (fp_name p)) (fp_base p) (fp_size p)"

definition flash_text :: "flash_partition_entry list \<Rightarrow> byte list" where
  "flash_text es = concat (map flash_entry_line es)"

lemma flash_text_simps [simp]:
  "flash_text [] = []"
  "flash_text (p # es) = flash_entry_line p @ flash_text es"
  by (simp_all add: flash_text_def)

lemma flash_line_ne: "0 < length (flash_line n b s)"
  by (simp add: flash_line_def)

lemma flash_text_Nil_iff [simp]: "flash_text es = [] \<longleftrightarrow> es = []"
  by (cases es) (auto simp: flash_entry_line_def flash_line_def)

lemma partition_table_loop_ok:
  assumes "terminated_flash ps" "s + length (flash_text (live_flash ps)) < length buf"
  shows "partition_table_loop buf s ps =
     Inr (if live_flash ps = [] then buf else overwrite buf s (flash_text (live_flash ps) @ [0]),
          s + length (flash_text (live_flash ps)))"
  using assms
proof (induction buf s ps rule: partition_table_loop.induct)
  case (1 buf s)
  then show ?case by (simp add: terminated_flash_def)
next
  case (2 buf s p ps)
  show ?case
  proof (cases "fp_name p")
    case None
    then show ?thesis by (simp add: live_flash_def)
  next
    case (Some n)
    let ?l = "flash_line n (fp_base p) (fp_size p)" and ?t = "flash_text (live_flash ps)"
    have live: "live_flash (p # ps) = p # live_flash ps" "flash_entry_line p = ?l"
      using Some by (simp_all add: live_flash_def flash_entry_line_def)
    have trm: "terminated_flash ps"
      using "2.prems"(1) Some by (simp add: terminated_flash_def)
    have fits: "s + length ?l + length ?t < length buf"
      using "2.prems"(2) live by simp
    let ?buf = "overwrite buf s (?l @ [0])"
    have snp: "snprintf_at buf s (length buf - s) ?l = Inr ?buf"
      using fits by (intro snprintf_at_fits) simp_all
    have len: "length ?buf = length buf"
      using fits by (simp add: length_overwrite)
    have "partition_table_loop ?buf (s + length ?l) ps =
        Inr (if live_flash ps = [] then ?buf else overwrite ?buf (s + length ?l) (?t @ [0]),
             s + length ?l + length ?t)"
      using trm len fits by (intro "2.IH" [OF Some refl refl refl]) simp_all
    moreover have "overwrite ?buf (s + length ?l) (?t @ [0]) = overwrite buf s (?l @ ?t @ [0])"
      using fits by (intro overwrite_extend) simp_all
    moreover have "\<not> length buf - Suc s < length ?l"
      using fits by linarith
    ultimately show ?thesis
      using Some live snp by (simp add: Let_def)
  qed
qed

lemma partition_table_loop_overflow:
  assumes "terminated_flash ps" "s < length buf"
    and "length buf \<le> s + length (flash_text (live_flash ps))"
  shows "partition_table_loop buf s ps = Inl (ErrorExit ''flash partition table overflow?'')"
  using assms
proof (induction buf s ps rule: partition_table_loop.induct)
  case (1 buf s)
  then show ?case by (simp add: terminated_flash_def)
next
  case (2 buf s p ps)
  show ?case
  proof (cases "fp_name p")
    case None
    then show ?thesis using "2.prems" by (simp add: live_flash_def)
  next
    case (Some n)
    let ?l = "flash_line n (fp_base p) (fp_size p)"
    have live: "live_flash (p # ps) = p # live_flash ps" "flash_entry_line p = ?l"
      using Some by (simp_all add: live_flash_def flash_entry_line_def)
    obtain buf' where buf': "snprintf_at buf s (length buf - s) ?l = Inr buf'"
        "length buf' = length buf"
      using snprintf_at_defined [of s "length buf - s" buf ?l] "2.prems"(2) by auto
    show ?thesis
    proof (cases "length buf \<le> s + length ?l")
      case True
      then have "length buf - Suc s < length ?l" using "2.prems"(2) by linarith
      then show ?thesis using Some buf' "2.prems"(2) by (simp add: Let_def)
    next
      case False
      have "partition_table_loop buf' (s + length ?l) ps =
          Inl (ErrorExit ''flash partition table overflow?'')"
        using "2.prems" Some live False buf'(2)
        by (intro "2.IH" [OF Some refl refl refl]) (simp_all add: terminated_flash_def)
      moreover have "\<not> length buf - Suc s < length ?l"
        using False by linarith
      ultimately show ?thesis using Some buf' by (simp add: Let_def)
    qed
  qed
qed

text \<open>The image partition as a value: header, table text, terminator, fill.\<close>

definition partition_table_bytes :: "flash_partition_entry list \<Rightarrow> byte list" where
  "partition_table_bytes es =
     [0x00, 0x04, 0x00, 0x00] @ flash_text es @ [0] @ replicate (0x800 - (length (flash_text es) + 5)) 0xff"

lemma make_partition_table_ok:
  assumes "malloc_ok env 0x800" "terminated_flash ps" "live_flash ps \<noteq> []"
    and "4 + length (flash_text (live_flash ps)) < 0x800"
  shows "make_partition_table env ps =
     Inr \<lparr>ip_name = Some (bytes ''partition-table''), ip_size = 0x800,
          ip_data = partition_table_bytes (live_flash ps)\<rparr>"
proof -
  let ?t = "flash_text (live_flash ps)" and ?h = "[0x00, 0x04, 0x00, 0x00 :: byte]"
  let ?u = "uninit env ''partition-table'' 0x800"
  let ?b = "overwrite ?u 0 ?h"
  have b: "mem_write ?u 0 ?h = Inr ?b" "length ?b = 0x800"
    by (simp_all add: length_overwrite)
  have "partition_table_loop ?b 4 ps = Inr (overwrite ?b 4 (?t @ [0]), 4 + length ?t)"
    using assms b(2) by (subst partition_table_loop_ok) simp_all
  moreover have "overwrite ?b 4 (?t @ [0]) = overwrite ?u 0 (?h @ ?t @ [0])"
    by (subst overwrite_adjacent) simp_all
  moreover have "overwrite (overwrite ?u 0 (?h @ ?t @ [0])) (4 + length ?t + 1)
      (replicate (0x800 - (4 + length ?t + 1)) 0xff) =
    overwrite ?u 0 ((?h @ ?t @ [0]) @ replicate (0x800 - (4 + length ?t + 1)) 0xff)"
    by (subst overwrite_adjacent) simp_all
  moreover have "\<dots> = partition_table_bytes (live_flash ps)"
    using assms(4) by (subst overwrite_all) (simp_all add: partition_table_bytes_def)
  moreover have "length (overwrite ?u 0 (?h @ ?t @ [0])) = 0x800"
    using assms(4) by (subst length_overwrite) simp_all
  ultimately show ?thesis
    using assms(1,4) b by (simp add: make_partition_table_def alloc_image_partition_def)
qed

lemma make_partition_table_overflow:
  assumes "malloc_ok env 0x800" "terminated_flash ps"
    and "0x800 \<le> 4 + length (flash_text (live_flash ps))"
  shows "make_partition_table env ps = Inl (ErrorExit ''flash partition table overflow?'')"
  using assms
  by (simp add: make_partition_table_def alloc_image_partition_def partition_table_loop_overflow
      length_overwrite)

section \<open>The other generated partitions\<close>

lemma bcd_digits:
  assumes "unat v < 100"
  shows "unat (bcd v) div 16 = unat v div 10" "unat (bcd v) mod 16 = unat v mod 10"
proof -
  have "unat v div 10 < 10" using assms by simp
  then have "unat (bcd v) = 16 * (unat v div 10) + unat v mod 10"
    unfolding bcd_def by (subst unat_of_nat) simp
  then show "unat (bcd v) div 16 = unat v div 10" "unat (bcd v) mod 16 = unat v mod 10"
    by simp_all
qed

lemma length_soft_version_bytes [simp]: "length (soft_version_bytes t rv) = 21"
  by (simp add: soft_version_bytes_def)

definition build_time :: "c_env \<Rightarrow> int \<Rightarrow> int option" where
  "build_time env sde = (if sde \<noteq> -1 then Some sde else clock env)"

lemma make_soft_version_eq:
  "make_soft_version env sde rv =
     (if malloc_ok env 21 then
        case build_time env sde of
          None \<Rightarrow> Inl (ErrorExit ''time'')
        | Some t \<Rightarrow> Inr \<lparr>ip_name = Some (bytes ''soft-version''), ip_size = 21,
            ip_data = soft_version_bytes (localtime env t) rv\<rparr>
      else Inl (ErrorExit ''malloc''))"
  by (auto simp: make_soft_version_def alloc_image_partition_def build_time_def
      split: option.splits)

definition version_string_bytes :: "cstr \<Rightarrow> byte list" where
  "version_string_bytes s = be32 (of_nat (length s + 1)) @ replicate 4 0 @ s @ [0, 0]"

lemma be32_0: "be32 0 = replicate 4 0"
  by (simp add: be32_def numeral_nat)

lemma make_soft_version_from_string_eq:
  assumes "length s + 1 < 2 ^ 32"
  shows "make_soft_version_from_string env s =
     (if malloc_ok env (length s + 10)
      then Inr \<lparr>ip_name = Some (bytes ''soft-version''), ip_size = length s + 10,
             ip_data = version_string_bytes s\<rparr>
      else Inl (ErrorExit ''malloc''))"
proof -
  let ?u = "uninit env ''soft-version'' (length s + 10)"
  let ?d = "be32 (of_nat (length s + 1)) @ be32 0 @ (s @ [0]) @ [0]"
  have "overwrite (overwrite (overwrite (overwrite ?u 0 (be32 (of_nat (length s + 1)))) 4 (be32 0))
      8 (s @ [0])) (length s + 9) [0] = overwrite ?u 0 ?d"
    by (simp add: overwrite_adjacent)
  also have "\<dots> = version_string_bytes s"
    by (subst overwrite_all) (simp_all add: version_string_bytes_def be32_0)
  finally have d: "overwrite (overwrite (overwrite (overwrite ?u 0 (be32 (of_nat (length s + 1)))) 4 (be32 0))
      8 (s @ [0])) (length s + 9) [0] = version_string_bytes s" .
  have "unat (of_nat (length s + 1) :: u32) = length s + 1"
    using assms unfolding unat_of_nat by simp
  then show ?thesis
    using d by (simp del: of_nat_add of_nat_Suc add: make_soft_version_from_string_def alloc_image_partition_def put32_def
        length_overwrite Let_def add.commute [of "length s" 10] add.commute [of "length s" 9])
qed

definition support_list_bytes :: "device_info \<Rightarrow> byte list" where
  "support_list_bytes info =
     be32 (of_nat (length (di_support_list info))) @ replicate 4 0 @ di_support_list info @
     [di_support_trail info]"

lemma make_support_list_eq:
  "make_support_list env info =
     (if malloc_ok env (length (di_support_list info) + 9)
      then Inr \<lparr>ip_name = Some (bytes ''support-list''), ip_size = length (di_support_list info) + 9,
             ip_data = support_list_bytes info\<rparr>
      else Inl (ErrorExit ''malloc''))"
proof -
  let ?n = "length (di_support_list info)"
  let ?u = "uninit env ''support-list'' (?n + 9)"
  have "overwrite (overwrite (overwrite (overwrite ?u 0 (be32 (of_nat ?n))) 4 (replicate 4 0))
      8 (di_support_list info)) (?n + 8) [di_support_trail info] =
    overwrite ?u 0 (be32 (of_nat ?n) @ replicate 4 0 @ di_support_list info @ [di_support_trail info])"
    by (simp add: overwrite_adjacent)
  also have "\<dots> = support_list_bytes info"
    by (subst overwrite_all) (simp_all add: support_list_bytes_def)
  finally show ?thesis
    by (simp add: make_support_list_def alloc_image_partition_def put32_def length_overwrite Let_def)
qed

lemma put_data_eq:
  "len \<le> length d \<Longrightarrow> put_data env name d len =
     (if malloc_ok env len
      then Inr \<lparr>ip_name = Some (bytes name), ip_size = len, ip_data = take len d\<rparr>
      else Inl (ErrorExit ''malloc''))"
  by (simp add: put_data_def alloc_image_partition_def)

section \<open>Partitions read from files\<close>

lemma align_64k_value:
  assumes "n + 0xffff < 2 ^ 64"
  shows "align_64k n = (n + 0xffff) div 0x10000 * 0x10000"
proof -
  have m: "(0x10000 - 1 :: u64) = mask 16"
    by (simp add: mask_eq_exp_minus_1)
  have "unat (of_nat n + 0x10000 - 1 :: u64) = n + 0xffff"
  proof -
    have "(of_nat n + 0x10000 - 1 :: u64) = of_nat (n + 0xffff)" by simp
    then show ?thesis using assms by (simp only: unat_of_nat) simp
  qed
  then have "align_64k n = n + 0xffff - (n + 0xffff) mod 2 ^ 16"
    unfolding align_64k_def ALIGN_def m unat_and_not_mask by simp
  also have "\<dots> = (n + 0xffff) div 2 ^ 16 * 2 ^ 16"
    by (rule minus_mod_eq_div_mult)
  finally show ?thesis by simp
qed

lemma align_64k_bounds:
  assumes "n + 0xffff < 2 ^ 64"
  shows "n \<le> align_64k n" "align_64k n < n + 0x10000" "0x10000 dvd align_64k n"
proof -
  have "(n + 0xffff) div 0x10000 * 0x10000 + (n + 0xffff) mod 0x10000 = n + 0xffff"
    by (rule div_mult_mod_eq)
  moreover have "(n + 0xffff) mod 0x10000 < 0x10000" by simp
  ultimately show "n \<le> align_64k n" "align_64k n < n + 0x10000" "0x10000 dvd align_64k n"
    unfolding align_64k_value [OF assms] by (linarith, linarith, simp)
qed

text \<open>The file as \<open>stat\<close> and \<open>fread\<close> see it: non-empty, readable, long enough.\<close>

definition file_read :: "c_env \<Rightarrow> cstr \<Rightarrow> byte list \<Rightarrow> bool" where
  "file_read env f content \<longleftrightarrow>
     content \<noteq> [] \<and> stat_size env f = Some (length content) \<and>
     (\<exists>rest. open_read env f = Some (content @ rest))"

lemma stat_file_Inr_iff [c_outcome]:
  "stat_file env f = Inr n \<longleftrightarrow> stat_size env f = Some n"
  by (auto simp: stat_file_def split: option.splits)

lemma fread_whole_Inr_iff [c_outcome]:
  "fread_whole env f n = Inr d \<longleftrightarrow>
     (\<exists>c. open_read env f = Some c \<and> 0 < n \<and> n \<le> length c \<and> d = take n c)"
  by (auto simp: fread_whole_def split: option.splits)

lemma fread_whole_file:
  "file_read env f c \<Longrightarrow> fread_whole env f (length c) = Inr c"
  by (auto simp: file_read_def fread_whole_def)

lemma file_readI:
  "stat_size env f = Some n \<Longrightarrow> fread_whole env f n = Inr c \<Longrightarrow> file_read env f c \<and> n = length c"
  by (auto simp: c_outcome file_read_def) (metis append_take_drop_id)

lemma file_read_stat: "file_read env f c \<Longrightarrow> stat_file env f = Inr (length c)"
  by (simp add: file_read_def stat_file_def)

lemma read_file_plain_iff:
  "read_file env name f False = Inr e \<longleftrightarrow>
     (\<exists>c. file_read env f c \<and> malloc_ok env (length c) \<and>
        e = \<lparr>ip_name = Some (bytes name), ip_size = length c, ip_data = c\<rparr>)"
proof
  assume "read_file env name f False = Inr e"
  then show "\<exists>c. file_read env f c \<and> malloc_ok env (length c) \<and>
        e = \<lparr>ip_name = Some (bytes name), ip_size = length c, ip_data = c\<rparr>"
    by (auto simp: read_file_def Let_def cbind_Inr_iff stat_file_Inr_iff alloc_Inr_iff
        mem_write_Inr_iff dest!: file_readI)
next
  assume "\<exists>c. file_read env f c \<and> malloc_ok env (length c) \<and>
        e = \<lparr>ip_name = Some (bytes name), ip_size = length c, ip_data = c\<rparr>"
  then obtain c where c: "file_read env f c" "malloc_ok env (length c)"
      "e = \<lparr>ip_name = Some (bytes name), ip_size = length c, ip_data = c\<rparr>" by blast
  then show "read_file env name f False = Inr e"
    by (simp add: read_file_def file_read_stat fread_whole_file alloc_image_partition_def)
qed

lemma put_jffs2_eof_ok:
  assumes "length d = n + k" "4 \<le> k"
  shows "put_jffs2_eof d n = Inr (take n d @ replicate (k - 4) 0xff @ jffs2_eof_mark)"
proof -
  have "length jffs2_eof_mark = 4" by (simp add: jffs2_eof_mark_def)
  moreover have "overwrite (overwrite d n (replicate (k - 4) 0xff)) (n + (k - 4)) jffs2_eof_mark =
      overwrite d n (replicate (k - 4) 0xff @ jffs2_eof_mark)"
    using assms by (subst overwrite_adjacent) simp_all
  ultimately show ?thesis
    using assms by (simp add: put_jffs2_eof_def Let_def length_overwrite overwrite_def)
qed

lemma read_file_jffs2:
  assumes "file_read env f c" "malloc_ok env (align_64k (length c) + 4)"
    and "length c + 0xffff < 2 ^ 64"
  shows "read_file env name f True =
     Inr \<lparr>ip_name = Some (bytes name), ip_size = align_64k (length c) + 4,
       ip_data = c @ replicate (align_64k (length c) - length c) 0xff @ jffs2_eof_mark\<rparr>"
proof -
  let ?n = "align_64k (length c) + 4"
  have le: "length c \<le> align_64k (length c)" using assms(3) by (rule align_64k_bounds)
  let ?d = "overwrite (uninit env name ?n) 0 c"
  have "length ?d = ?n" "take (length c) ?d = c"
    using le by (simp_all add: length_overwrite) (simp add: overwrite_def)
  then have "put_jffs2_eof ?d (length c) =
      Inr (c @ replicate (?n - length c - 4) 0xff @ jffs2_eof_mark)"
    using le put_jffs2_eof_ok [of ?d "length c" "?n - length c"] by simp
  then show ?thesis
    using assms(1,2) le
    by (simp add: read_file_def file_read_stat fread_whole_file alloc_image_partition_def)
qed

text \<open>
  The os-image partition of \<open>read_file_split2\<close> without the jffs2 mark: the two files
  back to back, then the bytes the rounding of the first size left over, which are whatever the
  heap held.
\<close>

lemma read_file_split2_plain_iff:
  "read_file_split2 env name f1 f2 False = Inr e \<longleftrightarrow>
     (\<exists>c1 c2. file_read env f1 c1 \<and> file_read env f2 c2 \<and>
        malloc_ok env (align_64k (length c1) + length c2) \<and>
        length c1 \<le> align_64k (length c1) \<and>
        e = \<lparr>ip_name = Some (bytes name), ip_size = align_64k (length c1) + length c2,
             ip_data = c1 @ c2 @ map (fresh env name)
               [length c1 + length c2..<align_64k (length c1) + length c2]\<rparr>)"
  (is "?l \<longleftrightarrow> ?r")
proof
  assume ?l
  then obtain n1 n2 c1 c2 where c: "stat_size env f1 = Some n1" "stat_size env f2 = Some n2"
      "malloc_ok env (align_64k n1 + n2)" "fread_whole env f1 n1 = Inr c1"
      "fread_whole env f2 n2 = Inr c2"
      "length c1 \<le> align_64k n1 + n2" "n1 + length c2 \<le> align_64k n1 + n2"
      "e = \<lparr>ip_name = Some (bytes name), ip_size = align_64k n1 + n2,
         ip_data = overwrite (overwrite (uninit env name (align_64k n1 + n2)) 0 c1) n1 c2\<rparr>"
    by (auto simp: read_file_split2_def Let_def cbind_Inr_iff stat_file_Inr_iff alloc_Inr_iff
        mem_write_Inr_iff length_overwrite)
  then have f: "file_read env f1 c1" "n1 = length c1" "file_read env f2 c2" "n2 = length c2"
    by (auto dest: file_readI)
  have "drop k (uninit env name m) = map (fresh env name) [k..<m]" for k m
    by (simp add: uninit_def drop_map)
  then have "overwrite (overwrite (uninit env name (align_64k n1 + n2)) 0 c1) n1 c2 =
      c1 @ c2 @ map (fresh env name) [n1 + n2..<align_64k n1 + n2]"
    using f c(6) by (subst overwrite_adjacent) (simp_all add: overwrite_def)
  with c f show ?r by auto
next
  assume ?r
  then obtain c1 c2 where c: "file_read env f1 c1" "file_read env f2 c2"
      "malloc_ok env (align_64k (length c1) + length c2)" "length c1 \<le> align_64k (length c1)"
      "e = \<lparr>ip_name = Some (bytes name), ip_size = align_64k (length c1) + length c2,
         ip_data = c1 @ c2 @ map (fresh env name)
               [length c1 + length c2..<align_64k (length c1) + length c2]\<rparr>" by blast
  let ?u = "uninit env name (align_64k (length c1) + length c2)"
  have "drop k (uninit env name m) = map (fresh env name) [k..<m]" for k m
    by (simp add: uninit_def drop_map)
  then have "overwrite (overwrite ?u 0 c1) (length c1) c2 = ip_data e"
    using c(4,5) by (subst overwrite_adjacent) (simp_all add: overwrite_def)
  then show ?l
    using c
    by (simp add: read_file_split2_def file_read_stat fread_whole_file alloc_image_partition_def
        length_overwrite Let_def)
qed

section \<open>Properties\<close>

text \<open>
  C18 (functional): for every terminated layout, \<open>make_partition_table\<close> either makes the
  0x800 bytes of the documented format (the magic, one line per partition in order, a zero byte,
  0xff fill) or, exactly when the text does not fit, ends with the overflow error.
\<close>

theorem make_partition_table_exact:
  assumes "malloc_ok env 0x800" "terminated_flash ps" "live_flash ps \<noteq> []"
  shows "make_partition_table env ps =
     (if 4 + length (flash_text (live_flash ps)) < 0x800
      then Inr \<lparr>ip_name = Some (bytes ''partition-table''), ip_size = 0x800,
             ip_data = partition_table_bytes (live_flash ps)\<rparr>
      else Inl (ErrorExit ''flash partition table overflow?''))"
  using assms by (simp add: make_partition_table_ok make_partition_table_overflow)

definition sample_env :: c_env where
  "sample_env = \<lparr>malloc_ok = (\<lambda>_. True), fresh = (\<lambda>_ _. 0xaa),
     stat_size = (\<lambda>f. if f = bytes ''k'' then Some 3 else if f = bytes ''r'' then Some 2
        else if f = bytes ''g'' then Some 1 else None),
     open_read = (\<lambda>f. if f = bytes ''k'' then Some [1, 2, 3] else if f = bytes ''r'' then Some [4, 5]
        else if f = bytes ''g'' then Some [6] else None),
     can_write = (\<lambda>_. True), clock = Some 0, localtime = (\<lambda>_. \<lparr>tm_year = 118, tm_mon = 4, tm_mday = 27\<rparr>)\<rparr>"

lemma sample_env_simps [simp]:
  "malloc_ok sample_env n" "can_write sample_env f" "clock sample_env = Some 0"
  "fresh sample_env x i = 0xaa"
  by (simp_all add: sample_env_def)

lemma sample_files:
  "file_read sample_env (bytes ''k'') [1, 2, 3]" "file_read sample_env (bytes ''r'') [4, 5]"
  "file_read sample_env (bytes ''g'') [6]"
  by (simp_all add: file_read_def sample_env_def inj_bytes)

theorem make_partition_table_exact_witness:
  "make_partition_table sample_env [flash_part ''os-image'' 0x40000 0x20000, flash_null] =
     Inr \<lparr>ip_name = Some (bytes ''partition-table''), ip_size = 0x800,
       ip_data = partition_table_bytes [flash_part ''os-image'' 0x40000 0x20000]\<rparr>"
proof -
  let ?p = "flash_part ''os-image'' 0x40000 0x20000"
  have "live_flash [?p, flash_null] = [?p]" "terminated_flash [?p, flash_null]"
    by (simp_all add: live_flash_def terminated_flash_def)
  moreover have "4 + length (flash_text [?p]) < 0x800"
    by (simp add: flash_entry_line_def flash_line_def fmt_05x_def hex_string.simps Let_def)
  ultimately show ?thesis
    using make_partition_table_exact [of sample_env "[?p, flash_null]"] by simp
qed

text \<open>The number two packed decimal digits stand for.\<close>

definition bcd_value :: "byte \<Rightarrow> nat" where
  "bcd_value b = 10 * (unat b div 16) + unat b mod 16"

lemma bcd_value_bcd: "unat v < 100 \<Longrightarrow> bcd_value (bcd v) = unat v"
  by (simp add: bcd_value_def bcd_digits)

lemma bcd_of_int:
  assumes "0 \<le> n" "n < 100"
  shows "int (bcd_value (bcd (of_int n))) = n"
proof -
  have "uint (of_int n :: byte) = n"
    using assms by (simp add: uint_word_of_int_eq take_bit_int_eq_self)
  then have "int (unat (of_int n :: byte)) = n" by simp
  moreover from this have "unat (of_int n :: byte) < 100" using assms by linarith
  ultimately show ?thesis by (simp only: bcd_value_bcd)
qed

text \<open>
  C19 (roundtrip): the date bytes of the soft-version partition decode, as packed decimal, to
  the year, month and day of the build, and the revision reads back, for every date up to
  the year 9999.
\<close>

theorem soft_version_date:
  assumes "0 \<le> tm_year t" "tm_year t < 8100" "0 \<le> tm_mon t" "tm_mon t < 12"
    and "1 \<le> tm_mday t" "tm_mday t \<le> 31" "b = soft_version_bytes t rv"
  shows "length b = 21 \<and>
     100 * int (bcd_value (b ! 12)) + int (bcd_value (b ! 13)) = 1900 + tm_year t \<and>
     int (bcd_value (b ! 14)) = tm_mon t + 1 \<and> int (bcd_value (b ! 15)) = tm_mday t \<and>
     be_value (take 4 (drop 16 b)) = unat rv"
proof -
  have b: "b = be32 0x0000000c @ [0, 0, 0, 0, 0xff, 0, 0, 0,
      bcd (of_int ((1900 + tm_year t) div 100)), bcd (of_int (tm_year t mod 100)),
      bcd (of_int (tm_mon t + 1)), bcd (of_int (tm_mday t))] @ be32 rv @ [0xff]"
  proof -
    have "(1900 + tm_year t) sdiv 100 = (1900 + tm_year t) div 100" "tm_year t smod 100 = tm_year t mod 100"
      using assms(1) by (auto simp: signed_divide_int_def signed_modulo_int_def sgn_if)
    then show ?thesis by (simp only: assms(7) soft_version_bytes_def) simp
  qed
  have c: "int (bcd_value (bcd (of_int ((1900 + tm_year t) div 100)))) = (1900 + tm_year t) div 100"
    using assms by (intro bcd_of_int) auto
  have y: "int (bcd_value (bcd (of_int (tm_year t mod 100)))) = tm_year t mod 100"
    by (rule bcd_of_int) auto
  have m: "int (bcd_value (bcd (of_int (tm_mon t + 1)))) = tm_mon t + 1"
    using assms by (intro bcd_of_int) auto
  have d: "int (bcd_value (bcd (of_int (tm_mday t)))) = tm_mday t"
    using assms by (intro bcd_of_int) auto
  have nth: "b ! 12 = bcd (of_int ((1900 + tm_year t) div 100))" "b ! 13 = bcd (of_int (tm_year t mod 100))"
      "b ! 14 = bcd (of_int (tm_mon t + 1))" "b ! 15 = bcd (of_int (tm_mday t))"
      "take 4 (drop 16 b) = be32 rv" "length b = 21"
    unfolding b by (simp_all add: nth_append nth_Cons')
  have "(1900 + tm_year t) div 100 = 19 + tm_year t div 100"
    by (simp add: div_plus_div_distrib_dvd_left)
  then have "100 * ((1900 + tm_year t) div 100) + tm_year t mod 100 = 1900 + tm_year t"
    using mult_div_mod_eq [of 100 "tm_year t"] by (simp add: distrib_left)
  then show ?thesis
    unfolding nth c y m d by simp
qed

theorem soft_version_date_witness:
  "let b = soft_version_bytes \<lparr>tm_year = 118, tm_mon = 4, tm_mday = 27\<rparr> 7
   in length b = 21 \<and> 100 * int (bcd_value (b ! 12)) + int (bcd_value (b ! 13)) = 2018"
  using soft_version_date [of "\<lparr>tm_year = 118, tm_mon = 4, tm_mday = 27\<rparr>" _ 7] by simp

text \<open>
  C20 (functional): \<open>read_file\<close> with the jffs2 mark makes the file's bytes, 0xff up to the
  next 64 KiB boundary and the mark, so the mark starts at an aligned offset.
\<close>

theorem read_file_jffs2_aligned:
  assumes "file_read env f c" "malloc_ok env (align_64k (length c) + 4)" "length c + 0xffff < 2 ^ 64"
  shows "\<exists>pad. read_file env name f True =
       Inr \<lparr>ip_name = Some (bytes name), ip_size = length c + pad + 4,
         ip_data = c @ replicate pad 0xff @ jffs2_eof_mark\<rparr> \<and>
     0x10000 dvd length c + pad \<and> pad < 0x10000"
  using read_file_jffs2 [OF assms, of name] align_64k_bounds [OF assms(3)]
  by (intro exI [of _ "align_64k (length c) - length c"]) auto

theorem read_file_jffs2_aligned_witness:
  "\<exists>pad. read_file sample_env ''file-system'' (bytes ''g'') True =
       Inr \<lparr>ip_name = Some (bytes ''file-system''), ip_size = 1 + pad + 4,
         ip_data = [6] @ replicate pad 0xff @ jffs2_eof_mark\<rparr> \<and>
     0x10000 dvd 1 + pad \<and> pad < 0x10000"
  using read_file_jffs2_aligned [OF sample_files(3), of "''file-system''"] by simp

text \<open>
  The os-image partition is made exactly when both files are read whole, and
  then holds the kernel, the rootfs directly behind it (not at the 64 KiB boundary its size was
  computed for), and a tail of uninitialised heap of the length of the kernel's rounding.
\<close>

lemma read_file_split2_contents:
  assumes "length c1 + 0xffff < 2 ^ 64" "file_read env f1 c1" "file_read env f2 c2"
    and "malloc_ok env (align_64k (length c1) + length c2)"
  shows "\<exists>e. read_file_split2 env name f1 f2 False = Inr e \<and>
     take (length c1) (ip_data e) = c1 \<and> take (length c2) (drop (length c1) (ip_data e)) = c2 \<and>
     ip_size e = align_64k (length c1) + length c2 \<and> length (ip_data e) = ip_size e \<and>
     (\<forall>i. length c1 + length c2 \<le> i \<and> i < ip_size e \<longrightarrow> ip_data e ! i = fresh env name i)"
proof -
  let ?u = "map (fresh env name) [length c1 + length c2..<align_64k (length c1) + length c2]"
  let ?e = "\<lparr>ip_name = Some (bytes name), ip_size = align_64k (length c1) + length c2,
      ip_data = c1 @ c2 @ ?u\<rparr>"
  have le: "length c1 \<le> align_64k (length c1)" by (rule align_64k_bounds(1) [OF assms(1)])
  then have "read_file_split2 env name f1 f2 False = Inr ?e"
    using assms by (subst read_file_split2_plain_iff) auto
  moreover have "\<forall>i. length c1 + length c2 \<le> i \<and> i < ip_size ?e \<longrightarrow> ip_data ?e ! i = fresh env name i"
    by (auto simp: nth_append)
  ultimately show ?thesis using le by (intro exI [of _ ?e]) simp
qed

end
