(* ===== verification/Md5.thy ===== *)
theory Md5
  imports Prelude
begin

text \<open>
  The message digest of tools/tplink-safeloader/md5.c: the macros and the unrolled
  transformation \<open>body\<close>, and the streaming interface \<open>MD5_Init\<close>, \<open>MD5_Update\<close>,
  \<open>MD5_Final\<close> over the context of md5.h (32-bit \<open>MD5_u32plus\<close>, 64-bit
  \<open>unsigned long\<close>). A second, independent description of the algorithm after RFC 1321
  (padding, block loop, round functions) is the specification; the theory shows that the
  unrolled code computes it and that every split of a message over updates gives its digest.
\<close>

section \<open>The macros of the transformation\<close>

definition md5_F :: "u32 \<Rightarrow> u32 \<Rightarrow> u32 \<Rightarrow> u32" where
  "md5_F x y z = z XOR (x AND (y XOR z))"

definition md5_G :: "u32 \<Rightarrow> u32 \<Rightarrow> u32 \<Rightarrow> u32" where
  "md5_G x y z = y XOR (z AND (x XOR y))"

definition md5_H :: "u32 \<Rightarrow> u32 \<Rightarrow> u32 \<Rightarrow> u32" where
  "md5_H x y z = (x XOR y) XOR z"

definition md5_H2 :: "u32 \<Rightarrow> u32 \<Rightarrow> u32 \<Rightarrow> u32" where
  "md5_H2 x y z = x XOR (y XOR z)"

definition md5_I :: "u32 \<Rightarrow> u32 \<Rightarrow> u32 \<Rightarrow> u32" where
  "md5_I x y z = y XOR (x OR NOT z)"

type_synonym md5_fun = "u32 \<Rightarrow> u32 \<Rightarrow> u32 \<Rightarrow> u32"

text \<open>The three statements of \<open>STEP\<close>, as the new value of its register \<open>a\<close>.\<close>

definition md5_STEP :: "md5_fun \<Rightarrow> u32 \<Rightarrow> u32 \<Rightarrow> u32 \<Rightarrow> u32 \<Rightarrow> u32 \<Rightarrow> u32 \<Rightarrow> nat \<Rightarrow> u32" where
  "md5_STEP f a b c d x t s =
     (let a1 = a + (f b c d + x + t);
          a2 = push_bit s a1 OR drop_bit (32 - s) (a1 AND 0xffffffff)
      in a2 + b)"

text \<open>\<open>SET\<close> and \<open>GET\<close>: the n-th little-endian word of the 64 bytes at \<open>ptr\<close>.\<close>

definition md5_SET :: "byte list \<Rightarrow> nat \<Rightarrow> u32" where
  "md5_SET ptr n =
     ucast (ptr ! (n * 4)) OR
     push_bit 8 (ucast (ptr ! (n * 4 + 1))) OR
     push_bit 16 (ucast (ptr ! (n * 4 + 2))) OR
     push_bit 24 (ucast (ptr ! (n * 4 + 3)))"

section \<open>The transformation\<close>

text \<open>
  The four working variables \<open>a\<close>, \<open>b\<close>, \<open>c\<close>, \<open>d\<close> of \<open>body\<close> are a register
  file; its 64 \<open>STEP\<close> lines are the program below, line by line, with the registers in
  the order the source names them.
\<close>

datatype md5_reg = Ra | Rb | Rc | Rd

record md5_regs =
  reg_a :: u32
  reg_b :: u32
  reg_c :: u32
  reg_d :: u32

fun get_reg :: "md5_reg \<Rightarrow> md5_regs \<Rightarrow> u32" where
  "get_reg Ra s = reg_a s"
| "get_reg Rb s = reg_b s"
| "get_reg Rc s = reg_c s"
| "get_reg Rd s = reg_d s"

fun set_reg :: "md5_reg \<Rightarrow> u32 \<Rightarrow> md5_regs \<Rightarrow> md5_regs" where
  "set_reg Ra v s = s\<lparr>reg_a := v\<rparr>"
| "set_reg Rb v s = s\<lparr>reg_b := v\<rparr>"
| "set_reg Rc v s = s\<lparr>reg_c := v\<rparr>"
| "set_reg Rd v s = s\<lparr>reg_d := v\<rparr>"

type_synonym md5_line = "md5_fun \<times> md5_reg \<times> md5_reg \<times> md5_reg \<times> md5_reg \<times> nat \<times> u32 \<times> nat"

definition md5_program :: "md5_line list" where
  "md5_program =
  [(md5_F, Ra, Rb, Rc, Rd, 0, 0xd76aa478, 7),
   (md5_F, Rd, Ra, Rb, Rc, 1, 0xe8c7b756, 12),
   (md5_F, Rc, Rd, Ra, Rb, 2, 0x242070db, 17),
   (md5_F, Rb, Rc, Rd, Ra, 3, 0xc1bdceee, 22),
   (md5_F, Ra, Rb, Rc, Rd, 4, 0xf57c0faf, 7),
   (md5_F, Rd, Ra, Rb, Rc, 5, 0x4787c62a, 12),
   (md5_F, Rc, Rd, Ra, Rb, 6, 0xa8304613, 17),
   (md5_F, Rb, Rc, Rd, Ra, 7, 0xfd469501, 22),
   (md5_F, Ra, Rb, Rc, Rd, 8, 0x698098d8, 7),
   (md5_F, Rd, Ra, Rb, Rc, 9, 0x8b44f7af, 12),
   (md5_F, Rc, Rd, Ra, Rb, 10, 0xffff5bb1, 17),
   (md5_F, Rb, Rc, Rd, Ra, 11, 0x895cd7be, 22),
   (md5_F, Ra, Rb, Rc, Rd, 12, 0x6b901122, 7),
   (md5_F, Rd, Ra, Rb, Rc, 13, 0xfd987193, 12),
   (md5_F, Rc, Rd, Ra, Rb, 14, 0xa679438e, 17),
   (md5_F, Rb, Rc, Rd, Ra, 15, 0x49b40821, 22),
   (md5_G, Ra, Rb, Rc, Rd, 1, 0xf61e2562, 5),
   (md5_G, Rd, Ra, Rb, Rc, 6, 0xc040b340, 9),
   (md5_G, Rc, Rd, Ra, Rb, 11, 0x265e5a51, 14),
   (md5_G, Rb, Rc, Rd, Ra, 0, 0xe9b6c7aa, 20),
   (md5_G, Ra, Rb, Rc, Rd, 5, 0xd62f105d, 5),
   (md5_G, Rd, Ra, Rb, Rc, 10, 0x02441453, 9),
   (md5_G, Rc, Rd, Ra, Rb, 15, 0xd8a1e681, 14),
   (md5_G, Rb, Rc, Rd, Ra, 4, 0xe7d3fbc8, 20),
   (md5_G, Ra, Rb, Rc, Rd, 9, 0x21e1cde6, 5),
   (md5_G, Rd, Ra, Rb, Rc, 14, 0xc33707d6, 9),
   (md5_G, Rc, Rd, Ra, Rb, 3, 0xf4d50d87, 14),
   (md5_G, Rb, Rc, Rd, Ra, 8, 0x455a14ed, 20),
   (md5_G, Ra, Rb, Rc, Rd, 13, 0xa9e3e905, 5),
   (md5_G, Rd, Ra, Rb, Rc, 2, 0xfcefa3f8, 9),
   (md5_G, Rc, Rd, Ra, Rb, 7, 0x676f02d9, 14),
   (md5_G, Rb, Rc, Rd, Ra, 12, 0x8d2a4c8a, 20),
   (md5_H, Ra, Rb, Rc, Rd, 5, 0xfffa3942, 4),
   (md5_H2, Rd, Ra, Rb, Rc, 8, 0x8771f681, 11),
   (md5_H, Rc, Rd, Ra, Rb, 11, 0x6d9d6122, 16),
   (md5_H2, Rb, Rc, Rd, Ra, 14, 0xfde5380c, 23),
   (md5_H, Ra, Rb, Rc, Rd, 1, 0xa4beea44, 4),
   (md5_H2, Rd, Ra, Rb, Rc, 4, 0x4bdecfa9, 11),
   (md5_H, Rc, Rd, Ra, Rb, 7, 0xf6bb4b60, 16),
   (md5_H2, Rb, Rc, Rd, Ra, 10, 0xbebfbc70, 23),
   (md5_H, Ra, Rb, Rc, Rd, 13, 0x289b7ec6, 4),
   (md5_H2, Rd, Ra, Rb, Rc, 0, 0xeaa127fa, 11),
   (md5_H, Rc, Rd, Ra, Rb, 3, 0xd4ef3085, 16),
   (md5_H2, Rb, Rc, Rd, Ra, 6, 0x04881d05, 23),
   (md5_H, Ra, Rb, Rc, Rd, 9, 0xd9d4d039, 4),
   (md5_H2, Rd, Ra, Rb, Rc, 12, 0xe6db99e5, 11),
   (md5_H, Rc, Rd, Ra, Rb, 15, 0x1fa27cf8, 16),
   (md5_H2, Rb, Rc, Rd, Ra, 2, 0xc4ac5665, 23),
   (md5_I, Ra, Rb, Rc, Rd, 0, 0xf4292244, 6),
   (md5_I, Rd, Ra, Rb, Rc, 7, 0x432aff97, 10),
   (md5_I, Rc, Rd, Ra, Rb, 14, 0xab9423a7, 15),
   (md5_I, Rb, Rc, Rd, Ra, 5, 0xfc93a039, 21),
   (md5_I, Ra, Rb, Rc, Rd, 12, 0x655b59c3, 6),
   (md5_I, Rd, Ra, Rb, Rc, 3, 0x8f0ccc92, 10),
   (md5_I, Rc, Rd, Ra, Rb, 10, 0xffeff47d, 15),
   (md5_I, Rb, Rc, Rd, Ra, 1, 0x85845dd1, 21),
   (md5_I, Ra, Rb, Rc, Rd, 8, 0x6fa87e4f, 6),
   (md5_I, Rd, Ra, Rb, Rc, 15, 0xfe2ce6e0, 10),
   (md5_I, Rc, Rd, Ra, Rb, 6, 0xa3014314, 15),
   (md5_I, Rb, Rc, Rd, Ra, 13, 0x4e0811a1, 21),
   (md5_I, Ra, Rb, Rc, Rd, 4, 0xf7537e82, 6),
   (md5_I, Rd, Ra, Rb, Rc, 11, 0xbd3af235, 10),
   (md5_I, Rc, Rd, Ra, Rb, 2, 0x2ad7d2bb, 15),
   (md5_I, Rb, Rc, Rd, Ra, 9, 0xeb86d391, 21)]"

fun exec_line :: "byte list \<Rightarrow> md5_line \<Rightarrow> md5_regs \<Rightarrow> md5_regs" where
  "exec_line ptr (f, a, b, c, d, n, t, s) st =
     set_reg a (md5_STEP f (get_reg a st) (get_reg b st) (get_reg c st) (get_reg d st)
       (md5_SET ptr n) t s) st"

definition add_regs :: "md5_regs \<Rightarrow> md5_regs \<Rightarrow> md5_regs" where
  "add_regs s saved =
     \<lparr>reg_a = reg_a s + reg_a saved, reg_b = reg_b s + reg_b saved,
      reg_c = reg_c s + reg_c saved, reg_d = reg_d s + reg_d saved\<rparr>"

text \<open>One turn of the \<open>do\<close> loop: save, 64 steps, add the saved values.\<close>

definition md5_block :: "byte list \<Rightarrow> md5_regs \<Rightarrow> md5_regs" where
  "md5_block ptr st = add_regs (fold (exec_line ptr) md5_program st) st"

text \<open>
  The loop \<open>do ... while (size -= 64)\<close>. \<open>ptr\<close> is the memory from the pointer to the
  end of its object, so a \<open>size\<close> that is no multiple of 64 (or is zero) runs off its end.
  The result is the registers and the final pointer.
\<close>

fun md5_body :: "md5_regs \<Rightarrow> byte list \<Rightarrow> u64 \<Rightarrow> (md5_regs \<times> byte list) c" where
  "md5_body st ptr sz =
     (if length ptr < 64 then Inl Undefined
      else
        let st' = md5_block (take 64 ptr) st;
            ptr' = drop 64 ptr;
            sz' = sz - 64
        in if sz' \<noteq> 0 then md5_body st' ptr' sz' else Inr (st', ptr'))"

declare md5_body.simps [simp del]

section \<open>The context and its operations\<close>

record md5_ctx =
  ctx_lo :: u32
  ctx_hi :: u32
  ctx_regs :: md5_regs
  ctx_buffer :: "byte list"

definition md5_init_regs :: md5_regs where
  "md5_init_regs =
     \<lparr>reg_a = 0x67452301, reg_b = 0xefcdab89, reg_c = 0x98badcfe, reg_d = 0x10325476\<rparr>"

text \<open>\<open>MD5_Init\<close> leaves the buffer as it found it.\<close>

definition MD5_Init :: "md5_ctx \<Rightarrow> md5_ctx" where
  "MD5_Init ctx = ctx\<lparr>ctx_regs := md5_init_regs, ctx_lo := 0, ctx_hi := 0\<rparr>"

text \<open>The end of \<open>MD5_Update\<close>: whole blocks from the data, the rest into the buffer.\<close>

definition md5_update_tail :: "md5_ctx \<Rightarrow> byte list \<Rightarrow> u64 \<Rightarrow> md5_ctx c" where
  "md5_update_tail ctx data sz =
     cbind (if sz \<ge> 64
            then cbind (md5_body (ctx_regs ctx) data (sz AND NOT 0x3f)) (\<lambda>(regs, data').
                   Inr (ctx\<lparr>ctx_regs := regs\<rparr>, data', sz AND 0x3f))
            else Inr (ctx, data, sz))
       (\<lambda>(ctx1, data1, sz1).
          cbind (mem_read data1 0 (unat sz1)) (\<lambda>chunk.
          cbind (mem_write (ctx_buffer ctx1) 0 chunk) (\<lambda>buf.
          Inr (ctx1\<lparr>ctx_buffer := buf\<rparr>))))"

text \<open>The byte count at the start of \<open>MD5_Update\<close>, with the carry from \<open>lo\<close> into \<open>hi\<close>.\<close>

definition md5_add_count :: "md5_ctx \<Rightarrow> u64 \<Rightarrow> md5_ctx" where
  "md5_add_count ctx sz =
     (let saved_lo = ctx_lo ctx;
          lo' = (ucast ((ucast saved_lo + sz) AND 0x1fffffff :: u64) :: u32);
          hi1 = (if lo' < saved_lo then ctx_hi ctx + 1 else ctx_hi ctx)
      in ctx\<lparr>ctx_lo := lo', ctx_hi := hi1 + ucast (drop_bit 29 sz)\<rparr>)"

definition MD5_Update :: "md5_ctx \<Rightarrow> byte list \<Rightarrow> u64 \<Rightarrow> md5_ctx c" where
  "MD5_Update ctx data sz =
     (let ctx1 = md5_add_count ctx sz;
          used = unat (ctx_lo ctx AND 0x3f)
      in if used \<noteq> 0 then
           (let available = 64 - used
            in if unat sz < available then
                 cbind (mem_read data 0 (unat sz)) (\<lambda>chunk.
                 cbind (mem_write (ctx_buffer ctx1) used chunk) (\<lambda>buf.
                 Inr (ctx1\<lparr>ctx_buffer := buf\<rparr>)))
               else
                 cbind (mem_read data 0 available) (\<lambda>chunk.
                 cbind (mem_write (ctx_buffer ctx1) used chunk) (\<lambda>buf.
                 cbind (md5_body (ctx_regs ctx1) buf 64) (\<lambda>(regs, _).
                 md5_update_tail (ctx1\<lparr>ctx_buffer := buf, ctx_regs := regs\<rparr>)
                   (drop available data) (sz - of_nat available)))))
         else md5_update_tail ctx1 data sz)"

definition le32 :: "u32 \<Rightarrow> byte list" where
  "le32 v = [ucast v, ucast (drop_bit 8 v), ucast (drop_bit 16 v), ucast (drop_bit 24 v)]"

definition regs_bytes :: "md5_regs \<Rightarrow> byte list" where
  "regs_bytes st = le32 (reg_a st) @ le32 (reg_b st) @ le32 (reg_c st) @ le32 (reg_d st)"

text \<open>
  \<open>MD5_Final\<close>: the marker byte, zeros up to the length field (through an extra block when
  fewer than eight bytes are left), the bit count, the last block. The result is the digest;
  the context is zeroed and carries no further information.
\<close>

definition MD5_Final :: "md5_ctx \<Rightarrow> byte list c" where
  "MD5_Final ctx =
     (let used0 = unat (ctx_lo ctx AND 0x3f) in
      cbind (mem_write (ctx_buffer ctx) used0 [0x80]) (\<lambda>buf0.
      (let used1 = used0 + 1; available1 = 64 - used1 in
       cbind (if available1 < 8
              then cbind (mem_write buf0 used1 (replicate available1 0)) (\<lambda>buf1.
                   cbind (md5_body (ctx_regs ctx) buf1 64) (\<lambda>(regs, _).
                   Inr (regs, buf1, 0, 64)))
              else Inr (ctx_regs ctx, buf0, used1, available1))
         (\<lambda>(regs, buf, used, available).
       cbind (mem_write buf used (replicate (available - 8) 0)) (\<lambda>buf2.
       cbind (mem_write buf2 56 (le32 (push_bit 3 (ctx_lo ctx)) @ le32 (ctx_hi ctx))) (\<lambda>buf3.
       cbind (md5_body regs buf3 64) (\<lambda>(regs', _).
       Inr (regs_bytes regs'))))))))"

section \<open>The specification: RFC 1321\<close>

definition rfc_F :: md5_fun where "rfc_F x y z = (x AND y) OR (NOT x AND z)"
definition rfc_G :: md5_fun where "rfc_G x y z = (x AND z) OR (y AND NOT z)"
definition rfc_H :: md5_fun where "rfc_H x y z = x XOR y XOR z"
definition rfc_I :: md5_fun where "rfc_I x y z = y XOR (x OR NOT z)"

definition rfc_T :: "u32 list" where
  "rfc_T =
  [0xd76aa478, 0xe8c7b756, 0x242070db, 0xc1bdceee,
   0xf57c0faf, 0x4787c62a, 0xa8304613, 0xfd469501,
   0x698098d8, 0x8b44f7af, 0xffff5bb1, 0x895cd7be,
   0x6b901122, 0xfd987193, 0xa679438e, 0x49b40821,
   0xf61e2562, 0xc040b340, 0x265e5a51, 0xe9b6c7aa,
   0xd62f105d, 0x02441453, 0xd8a1e681, 0xe7d3fbc8,
   0x21e1cde6, 0xc33707d6, 0xf4d50d87, 0x455a14ed,
   0xa9e3e905, 0xfcefa3f8, 0x676f02d9, 0x8d2a4c8a,
   0xfffa3942, 0x8771f681, 0x6d9d6122, 0xfde5380c,
   0xa4beea44, 0x4bdecfa9, 0xf6bb4b60, 0xbebfbc70,
   0x289b7ec6, 0xeaa127fa, 0xd4ef3085, 0x04881d05,
   0xd9d4d039, 0xe6db99e5, 0x1fa27cf8, 0xc4ac5665,
   0xf4292244, 0x432aff97, 0xab9423a7, 0xfc93a039,
   0x655b59c3, 0x8f0ccc92, 0xffeff47d, 0x85845dd1,
   0x6fa87e4f, 0xfe2ce6e0, 0xa3014314, 0x4e0811a1,
   0xf7537e82, 0xbd3af235, 0x2ad7d2bb, 0xeb86d391]"

text \<open>Operation i of the four rounds: its function, its word, its constant, its rotation.\<close>

definition rfc_op :: "nat \<Rightarrow> md5_fun \<times> nat \<times> u32 \<times> nat" where
  "rfc_op i =
     (if i < 16 then (rfc_F, i mod 16, rfc_T ! i, [7, 12, 17, 22] ! (i mod 4))
      else if i < 32 then (rfc_G, (5 * i + 1) mod 16, rfc_T ! i, [5, 9, 14, 20] ! (i mod 4))
      else if i < 48 then (rfc_H, (3 * i + 5) mod 16, rfc_T ! i, [4, 11, 16, 23] ! (i mod 4))
      else (rfc_I, 7 * i mod 16, rfc_T ! i, [6, 10, 15, 21] ! (i mod 4)))"

fun rfc_step :: "byte list \<Rightarrow> md5_fun \<times> nat \<times> u32 \<times> nat \<Rightarrow> md5_regs \<Rightarrow> md5_regs" where
  "rfc_step blk (f, k, t, s) st =
     \<lparr>reg_a = reg_d st,
      reg_b = reg_b st + word_rotl s (reg_a st + f (reg_b st) (reg_c st) (reg_d st) + md5_SET blk k + t),
      reg_c = reg_b st,
      reg_d = reg_c st\<rparr>"

definition rfc_block :: "byte list \<Rightarrow> md5_regs \<Rightarrow> md5_regs" where
  "rfc_block blk st = add_regs (fold (\<lambda>i. rfc_step blk (rfc_op i)) [0..<64] st) st"

text \<open>Whole blocks of a message, in order; a shorter rest is not consumed.\<close>

fun md5_absorb :: "md5_regs \<Rightarrow> byte list \<Rightarrow> md5_regs" where
  "md5_absorb st m =
     (if length m < 64 then st else md5_absorb (rfc_block (take 64 m) st) (drop 64 m))"

declare md5_absorb.simps [simp del]

definition le64 :: "u64 \<Rightarrow> byte list" where
  "le64 v = map (\<lambda>k. ucast (drop_bit (8 * k) v)) [0..<8]"

definition md5_pad :: "byte list \<Rightarrow> byte list" where
  "md5_pad m = m @ [0x80] @ replicate ((119 - length m mod 64) mod 64) 0 @ le64 (of_nat (8 * length m))"

definition md5_digest :: "byte list \<Rightarrow> byte list" where
  "md5_digest m = regs_bytes (md5_absorb md5_init_regs (md5_pad m))"

section \<open>The optimised transformation computes the specification\<close>

lemma md5_F_rfc: "md5_F = rfc_F"
  by (intro ext bit_word_eqI) (auto simp: md5_F_def rfc_F_def bit_simps)

lemma md5_G_rfc: "md5_G = rfc_G"
  by (intro ext bit_word_eqI) (auto simp: md5_G_def rfc_G_def bit_simps)

lemma md5_H_rfc: "md5_H = rfc_H" "md5_H2 = rfc_H"
  by (intro ext; simp add: md5_H_def md5_H2_def rfc_H_def xor.assoc)+

lemma md5_I_rfc: "md5_I = rfc_I"
  by (intro ext) (simp add: md5_I_def rfc_I_def)

lemmas md5_funs_rfc = md5_F_rfc md5_G_rfc md5_H_rfc md5_I_rfc

lemma md5_rotate:
  fixes a :: u32
  assumes "0 < s" "s < 32"
  shows "push_bit s a OR drop_bit (32 - s) (a AND 0xffffffff) = word_rotl s a"
proof (rule bit_word_eqI)
  fix n assume "n < LENGTH(32)"
  have mask: "a AND 0xffffffff = a"
  proof -
    have "(0xffffffff :: u32) = - 1" by simp
    then show ?thesis by (simp only: and.right_neutral)
  qed
  have wrap: "(n + 32 - s) mod 32 = (if n < s then 32 + n - s else n - s)"
    using assms \<open>n < LENGTH(32)\<close> by (auto simp: mod_if)
  show "bit (push_bit s a OR drop_bit (32 - s) (a AND 0xffffffff)) n = bit (word_rotl s a) n"
    using assms \<open>n < LENGTH(32)\<close>
    unfolding mask by (auto simp: bit_simps wrap dest: bit_imp_le_length)
qed

lemma md5_STEP_rfc:
  "0 < s \<Longrightarrow> s < 32 \<Longrightarrow> md5_STEP f a b c d x t s = b + word_rotl s (a + f b c d + x + t)"
  unfolding md5_STEP_def Let_def by (simp only: md5_rotate) (simp add: ac_simps)

lemma rfc_step_STEP:
  "0 < s \<Longrightarrow> s < 32 \<Longrightarrow>
     rfc_step p (f, n, t, s) st =
       \<lparr>reg_a = reg_d st,
        reg_b = md5_STEP f (reg_a st) (reg_b st) (reg_c st) (reg_d st) (md5_SET p n) t s,
        reg_c = reg_b st, reg_d = reg_c st\<rparr>"
  by (simp add: md5_STEP_rfc)

text \<open>
  Four consecutive lines of the program name the registers in the four rotations of
  (a, b, c, d): together they are four steps of the specification.
\<close>

lemma exec_four_lines:
  assumes "0 < s1 \<and> s1 < 32" "0 < s2 \<and> s2 < 32" "0 < s3 \<and> s3 < 32" "0 < s4 \<and> s4 < 32"
  shows "exec_line p (f4, Rb, Rc, Rd, Ra, n4, t4, s4) (exec_line p (f3, Rc, Rd, Ra, Rb, n3, t3, s3)
       (exec_line p (f2, Rd, Ra, Rb, Rc, n2, t2, s2) (exec_line p (f1, Ra, Rb, Rc, Rd, n1, t1, s1) st))) =
     rfc_step p (f4, n4, t4, s4) (rfc_step p (f3, n3, t3, s3)
       (rfc_step p (f2, n2, t2, s2) (rfc_step p (f1, n1, t1, s1) st)))"
  using assms by (cases st) (simp add: rfc_step_STEP del: rfc_step.simps)

lemma upt_64:
  "[0..<64::nat] =
     [0, 1, 2, 3, 4, 5, 6, 7, 8, 9, 10, 11, 12, 13, 14, 15, 16, 17, 18, 19, 20, 21,
      22, 23, 24, 25, 26, 27, 28, 29, 30, 31, 32, 33, 34, 35, 36, 37, 38, 39, 40, 41,
      42, 43, 44, 45, 46, 47, 48, 49, 50, 51, 52, 53, 54, 55, 56, 57, 58, 59, 60, 61,
      62, 63]"
  by code_simp

lemma rfc_ops:
  "map rfc_op [0..<64] = map (\<lambda>(f, a, b, c, d, n, t, s). (f, n, t, s)) md5_program"
  unfolding md5_program_def md5_funs_rfc
  by (simp add: upt_64 rfc_op_def rfc_T_def)

theorem md5_block_rfc: "md5_block blk = rfc_block blk"
proof
  fix st
  have "fold (exec_line blk) md5_program st =
      fold (rfc_step blk) (map (\<lambda>(f, a, b, c, d, n, t, s). (f, n, t, s)) md5_program) st"
    by (simp add: md5_program_def exec_four_lines del: rfc_step.simps exec_line.simps)
  also have "\<dots> = fold (\<lambda>i. rfc_step blk (rfc_op i)) [0..<64] st"
    by (simp only: rfc_ops [symmetric] fold_map comp_def)
  finally show "md5_block blk st = rfc_block blk st"
    by (simp add: md5_block_def rfc_block_def)
qed

section \<open>Absorbing whole blocks\<close>

lemma md5_absorb_short: "length m < 64 \<Longrightarrow> md5_absorb st m = st"
  by (subst md5_absorb.simps) simp

lemma md5_absorb_long:
  "64 \<le> length m \<Longrightarrow> md5_absorb st m = md5_absorb (rfc_block (take 64 m) st) (drop 64 m)"
  by (subst md5_absorb.simps) simp

lemma md5_absorb_append:
  "64 dvd length x \<Longrightarrow> md5_absorb st (x @ y) = md5_absorb (md5_absorb st x) y"
proof (induction st x rule: md5_absorb.induct)
  case (1 st x)
  show ?case
  proof (cases "length x < 64")
    case True
    then have "x = []" using "1.prems" by (auto dest: dvd_imp_le)
    then show ?thesis by (simp add: md5_absorb_short)
  next
    case False
    then have "64 dvd length (drop 64 x)"
      using "1.prems" by (simp add: dvd_diff_nat)
    with "1.IH" False show ?thesis
      by (simp add: md5_absorb_long)
  qed
qed

lemma md5_absorb_block:
  "length b = 64 \<Longrightarrow> md5_absorb st b = rfc_block b st"
  by (simp add: md5_absorb_long md5_absorb_short)

lemma md5_absorb_rest:
  "64 dvd length x \<Longrightarrow> length y < 64 \<Longrightarrow> md5_absorb st (x @ y) = md5_absorb st x"
  by (simp add: md5_absorb_append md5_absorb_short)

text \<open>The loop of \<open>body\<close> on a positive multiple of the block size.\<close>

lemma md5_body_absorb:
  "64 dvd unat sz \<Longrightarrow> 0 < unat sz \<Longrightarrow> unat sz \<le> length ptr \<Longrightarrow>
     md5_body st ptr sz = Inr (md5_absorb st (take (unat sz) ptr), drop (unat sz) ptr)"
proof (induction st ptr sz rule: md5_body.induct)
  case (1 st ptr sz)
  then have ge: "64 \<le> unat sz" by (auto dest: dvd_imp_le)
  then have sub: "unat (sz - 64) = unat sz - 64"
    by (simp add: unat_sub word_le_nat_alt)
  have len: "\<not> length ptr < 64" using ge "1.prems" by simp
  show ?case
  proof (cases "sz - 64 = 0")
    case True
    then have "unat sz = 64" using sub ge by simp
    then show ?thesis
      using True len
      by (subst md5_body.simps) (simp add: Let_def md5_block_rfc md5_absorb_block)
  next
    case False
    then have "unat (sz - 64) \<noteq> 0" by (simp add: unat_eq_0)
    then have "md5_body (md5_block (take 64 ptr) st) (drop 64 ptr) (sz - 64) =
        Inr (md5_absorb (md5_block (take 64 ptr) st) (take (unat (sz - 64)) (drop 64 ptr)),
             drop (unat (sz - 64)) (drop 64 ptr))"
      using "1.IH" [OF len refl refl refl False] "1.prems" sub by (simp add: dvd_diff_nat)
    moreover have "md5_absorb st (take (unat sz) ptr) =
        md5_absorb (rfc_block (take 64 ptr) st) (take (unat sz - 64) (drop 64 ptr))"
      using ge "1.prems" by (subst md5_absorb_long) (simp_all add: drop_take min_absorb1)
    ultimately show ?thesis
      using False len ge sub by (subst md5_body.simps) (simp add: Let_def md5_block_rfc)
  qed
qed

text \<open>
  A size that is zero, no multiple of 64, or larger than the object takes the loop off the
  object's end: subtracting 64 passes zero without hitting it.
\<close>

lemma md5_body_overrun:
  "length ptr < 2 ^ 64 \<Longrightarrow> \<not> (64 dvd unat sz \<and> 0 < unat sz \<and> unat sz \<le> length ptr) \<Longrightarrow>
     md5_body st ptr sz = Inl Undefined"
proof (induction st ptr sz rule: md5_body.induct)
  case (1 st ptr sz)
  show ?case
  proof (cases "length ptr < 64")
    case True
    then show ?thesis by (subst md5_body.simps) simp
  next
    case False
    have ne: "unat sz \<noteq> 64" using "1.prems"(2) False by auto
    have next_size: "unat (sz - 64) =
        (if 64 \<le> unat sz then unat sz - 64 else unat sz + 2 ^ 64 - 64)"
      by (simp add: unat_sub_if_size word_size)
    have rest: "sz - 64 \<noteq> 0"
    proof
      assume "sz - 64 = 0"
      then have "sz = 64" by simp
      with ne show False by simp
    qed
    have "\<not> (64 dvd unat (sz - 64) \<and> 0 < unat (sz - 64) \<and> unat (sz - 64) \<le> length (drop 64 ptr))"
      using "1.prems" False ne by (auto simp: next_size dvd_diff_nat dvd_minus_self split: if_splits)
    then show ?thesis
      using "1.IH" [OF False refl refl refl rest] "1.prems"(1) False rest
      by (subst md5_body.simps) (simp add: Let_def)
  qed
qed

section \<open>What a context represents\<close>

definition md5_whole :: "byte list \<Rightarrow> nat" where
  "md5_whole m = length m - length m mod 64"

text \<open>
  A context that has absorbed the message \<open>m\<close>: the byte count in \<open>lo\<close> (29 bits) and
  \<open>hi\<close> (32 bits), the chaining values of the whole blocks, the rest in the buffer.
\<close>

definition md5_repr :: "md5_ctx \<Rightarrow> byte list \<Rightarrow> bool" where
  "md5_repr ctx m \<longleftrightarrow>
     unat (ctx_lo ctx) = length m mod 2 ^ 29 \<and>
     unat (ctx_hi ctx) = length m div 2 ^ 29 mod 2 ^ 32 \<and>
     length (ctx_buffer ctx) = 64 \<and>
     ctx_regs ctx = md5_absorb md5_init_regs (take (md5_whole m) m) \<and>
     take (length m mod 64) (ctx_buffer ctx) = drop (md5_whole m) m"

lemma md5_whole_append:
  "64 dvd length x \<Longrightarrow> length r < 64 \<Longrightarrow> md5_whole (x @ r) = length x"
  by (auto simp: md5_whole_def mod_add_left_eq [symmetric])

lemma md5_reprI:
  assumes "m = x @ r" "64 dvd length x" "length r < 64"
    and "unat (ctx_lo ctx) = length m mod 2 ^ 29"
    and "unat (ctx_hi ctx) = length m div 2 ^ 29 mod 2 ^ 32"
    and "length (ctx_buffer ctx) = 64"
    and "ctx_regs ctx = md5_absorb md5_init_regs x"
    and "take (length r) (ctx_buffer ctx) = r"
  shows "md5_repr ctx m"
proof -
  have "length m mod 64 = length r"
    using assms(1-3) by auto
  then show ?thesis
    using assms by (simp add: md5_repr_def md5_whole_append)
qed

lemma md5_reprE:
  assumes "md5_repr ctx m"
  obtains x r where "m = x @ r" "64 dvd length x" "length r < 64" "length m mod 64 = length r"
    "unat (ctx_lo ctx) = length m mod 2 ^ 29"
    "unat (ctx_hi ctx) = length m div 2 ^ 29 mod 2 ^ 32"
    "length (ctx_buffer ctx) = 64"
    "ctx_regs ctx = md5_absorb md5_init_regs x"
    "take (length r) (ctx_buffer ctx) = r"
proof
  let ?x = "take (md5_whole m) m" and ?r = "drop (md5_whole m) m"
  show "m = ?x @ ?r" by simp
  show "64 dvd length ?x"
    by (simp add: md5_whole_def min_absorb1)
  show r: "length m mod 64 = length ?r"
    by (simp add: md5_whole_def)
  show "length ?r < 64"
    by (subst r [symmetric]) simp
  show "take (length ?r) (ctx_buffer ctx) = ?r"
    using assms unfolding r [symmetric] by (simp add: md5_repr_def)
qed (use assms in \<open>simp_all add: md5_repr_def\<close>)

lemma md5_repr_Init: "length (ctx_buffer ctx) = 64 \<Longrightarrow> md5_repr (MD5_Init ctx) []"
  by (rule md5_reprI [of _ "[]" "[]"]) (simp_all add: MD5_Init_def md5_absorb_short)

section \<open>The byte count\<close>

lemma byte_count_step:
  fixes len s :: nat
  defines "lo \<equiv> len mod 2 ^ 29" and "lo' \<equiv> (len mod 2 ^ 29 + s) mod 2 ^ 29"
  shows "lo' = (len + s) mod 2 ^ 29"
    and "len div 2 ^ 29 + (if lo' < lo then 1 else 0) + s div 2 ^ 29 = (len + s) div 2 ^ 29"
proof -
  show "lo' = (len + s) mod 2 ^ 29"
    unfolding lo'_def by (rule mod_add_left_eq)
  let ?M = "2 ^ 29 :: nat" and ?r = "s mod 2 ^ 29"
  have lo': "lo' = (lo + ?r) mod ?M"
    unfolding lo'_def lo_def by (simp only: mod_add_left_eq mod_add_right_eq)
  have "(len + s) div ?M = len div ?M + s div ?M + (lo + ?r) div ?M"
    unfolding lo_def by (rule div_add1_eq)
  moreover have "(lo + ?r) div ?M = (if lo' < lo then 1 else 0)"
  proof (cases "lo + ?r < ?M")
    case True
    then show ?thesis by (simp add: lo')
  next
    case False
    have "lo < ?M" "?r < ?M" by (simp_all add: lo_def)
    then have "(lo + ?r) div ?M = 1" "(lo + ?r) mod ?M = lo + ?r - ?M"
      using False by (simp_all add: le_div_geq le_mod_geq)
    then show ?thesis using False \<open>?r < ?M\<close> by (simp add: lo')
  qed
  ultimately show "len div ?M + (if lo' < lo then 1 else 0) + s div ?M = (len + s) div ?M"
    by simp
qed

lemma mask_29: "(0x1fffffff :: 'a::len word) = mask 29"
  by (simp add: mask_eq_exp_minus_1)

lemma md5_count_lo:
  fixes lo :: u32 and sz :: u64
  shows "unat (ucast ((ucast lo + sz) AND 0x1fffffff :: u64) :: u32) = (unat lo + unat sz) mod 2 ^ 29"
proof -
  have "unat ((ucast lo + sz) AND 0x1fffffff :: u64) = (unat lo + unat sz) mod 2 ^ 64 mod 2 ^ 29"
    unfolding mask_29 unat_and_mask by (simp add: unat_word_ariths unsigned_ucast_eq take_bit_eq_mod mod_simps)
  also have "\<dots> = (unat lo + unat sz) mod 2 ^ 29"
    by (simp add: mod_mod_cancel)
  finally show ?thesis
    by (simp add: unsigned_ucast_eq take_bit_eq_mod)
qed

lemma md5_count_hi:
  fixes hi :: u32 and sz :: u64
  shows "unat ((if b then hi + 1 else hi) + ucast (drop_bit 29 sz)) =
     (unat hi + (if b then 1 else 0) + unat sz div 2 ^ 29) mod 2 ^ 32"
proof -
  have "unat (ucast (drop_bit 29 sz) :: u32) = unat sz div 2 ^ 29 mod 2 ^ 32"
    by (simp only: unsigned_ucast_eq unat_drop_bit_eq) (simp add: take_bit_eq_mod drop_bit_eq_div)
  then show ?thesis
    by (simp add: unat_word_ariths mod_simps)
qed

section \<open>The streaming operations keep the representation\<close>

text \<open>
  The end of an update: a context whose chaining values stand for the whole blocks \<open>x\<close>
  takes in \<open>sz\<close> bytes with nothing buffered.
\<close>

lemma md5_update_tail_ok:
  assumes "ctx_regs ctx = md5_absorb md5_init_regs x" "64 dvd length x"
    and "length (ctx_buffer ctx) = 64" "unat sz \<le> length data"
  shows "\<exists>ctx' y r. md5_update_tail ctx data sz = Inr ctx' \<and>
     take (unat sz) data = y @ r \<and> 64 dvd length y \<and> length r < 64 \<and>
     ctx_regs ctx' = md5_absorb md5_init_regs (x @ y) \<and>
     length (ctx_buffer ctx') = 64 \<and> take (length r) (ctx_buffer ctx') = r \<and>
     ctx_lo ctx' = ctx_lo ctx \<and> ctx_hi ctx' = ctx_hi ctx"
proof (cases "64 \<le> unat sz")
  case True
  define k where "k = unat sz - unat sz mod 64"
  have k1: "unat (sz AND NOT 0x3f) = k"
    by (simp only: unat_and_not_3f k_def)
  have k: "64 dvd k" "0 < k" "k \<le> length data"
    "unat (sz AND 0x3f) = unat sz - k" "unat sz - k < 64" "k \<le> unat sz"
    using True assms(4) by (auto simp: k_def unat_and_3f)
  define r where "r = take (unat sz - k) (drop k data)"
  have r: "length r < 64" "take (unat sz) data = take k data @ r"
    using k assms(4) by (auto simp: r_def min_absorb1 simp flip: take_add)
  have "md5_body (ctx_regs ctx) data (sz AND NOT 0x3f) =
      Inr (md5_absorb (ctx_regs ctx) (take k data), drop k data)"
    using k by (subst md5_body_absorb) (simp_all only: k1)
  then have "md5_update_tail ctx data sz =
      Inr (ctx\<lparr>ctx_regs := md5_absorb md5_init_regs (x @ take k data),
                ctx_buffer := overwrite (ctx_buffer ctx) 0 r\<rparr>)"
    using True k assms r
    by (simp add: md5_update_tail_def word_le_nat_alt md5_absorb_append r_def)
  then show ?thesis
    using r k assms(3)
    by (intro exI [of _ "take k data"] exI [of _ r] exI)
      (auto simp: mem_simps overwrite_def)
next
  case False
  then have "md5_update_tail ctx data sz =
      Inr (ctx\<lparr>ctx_buffer := overwrite (ctx_buffer ctx) 0 (take (unat sz) data)\<rparr>)"
    using assms by (simp add: md5_update_tail_def word_le_nat_alt)
  then show ?thesis
    using False assms
    by (intro exI [of _ "[]"] exI [of _ "take (unat sz) data"] exI)
      (auto simp: overwrite_def min_absorb1)
qed

lemma md5_update_tail_repr:
  assumes "ctx_regs ctx = md5_absorb md5_init_regs x" "64 dvd length x"
    and "length (ctx_buffer ctx) = 64" "unat sz \<le> length data"
    and m': "m' = x @ take (unat sz) data"
    and "unat (ctx_lo ctx) = length m' mod 2 ^ 29"
    and "unat (ctx_hi ctx) = length m' div 2 ^ 29 mod 2 ^ 32"
  shows "\<exists>ctx'. md5_update_tail ctx data sz = Inr ctx' \<and> md5_repr ctx' m'"
proof -
  obtain ctx' y r where t: "md5_update_tail ctx data sz = Inr ctx'"
      "take (unat sz) data = y @ r" "64 dvd length y" "length r < 64"
      "ctx_regs ctx' = md5_absorb md5_init_regs (x @ y)"
      "length (ctx_buffer ctx') = 64" "take (length r) (ctx_buffer ctx') = r"
      "ctx_lo ctx' = ctx_lo ctx" "ctx_hi ctx' = ctx_hi ctx"
    using md5_update_tail_ok [OF assms(1-4)] by blast
  have "md5_repr ctx' m'"
    by (rule md5_reprI [of m' "x @ y" r]) (use t assms in simp_all)
  with t(1) show ?thesis by blast
qed

lemma md5_add_count_frame [simp]:
  "ctx_regs (md5_add_count ctx sz) = ctx_regs ctx"
  "ctx_buffer (md5_add_count ctx sz) = ctx_buffer ctx"
  by (simp_all add: md5_add_count_def Let_def)

lemma md5_add_count_ok:
  assumes "unat (ctx_lo ctx) = len mod 2 ^ 29" "unat (ctx_hi ctx) = len div 2 ^ 29 mod 2 ^ 32"
  shows "unat (ctx_lo (md5_add_count ctx sz)) = (len + unat sz) mod 2 ^ 29"
    and "unat (ctx_hi (md5_add_count ctx sz)) = (len + unat sz) div 2 ^ 29 mod 2 ^ 32"
proof -
  define lo' where "lo' = (ucast ((ucast (ctx_lo ctx) + sz) AND 0x1fffffff :: u64) :: u32)"
  define hi' where "hi' = (if lo' < ctx_lo ctx then ctx_hi ctx + 1 else ctx_hi ctx) +
      ucast (drop_bit 29 sz)"
  have ctx: "ctx_lo (md5_add_count ctx sz) = lo'" "ctx_hi (md5_add_count ctx sz) = hi'"
    by (simp_all add: md5_add_count_def Let_def lo'_def hi'_def)
  have lo: "unat lo' = (len + unat sz) mod 2 ^ 29"
    unfolding lo'_def md5_count_lo assms by (rule byte_count_step)
  then show "unat (ctx_lo (md5_add_count ctx sz)) = (len + unat sz) mod 2 ^ 29"
    by (simp only: ctx)
  have less: "lo' < ctx_lo ctx \<longleftrightarrow> (len mod 2 ^ 29 + unat sz) mod 2 ^ 29 < len mod 2 ^ 29"
    unfolding word_less_nat_alt lo assms(1) by (simp only: mod_add_left_eq)
  have "unat hi' = (len div 2 ^ 29 mod 2 ^ 32 + (if lo' < ctx_lo ctx then 1 else 0) +
      unat sz div 2 ^ 29) mod 2 ^ 32"
    unfolding hi'_def md5_count_hi assms(2) ..
  also have "\<dots> = (len div 2 ^ 29 + (if lo' < ctx_lo ctx then 1 else 0) +
      unat sz div 2 ^ 29) mod 2 ^ 32"
    by (simp only: mod_add_left_eq add.assoc)
  also have "\<dots> = (len + unat sz) div 2 ^ 29 mod 2 ^ 32"
    unfolding less byte_count_step(2) ..
  finally show "unat (ctx_hi (md5_add_count ctx sz)) = (len + unat sz) div 2 ^ 29 mod 2 ^ 32"
    by (simp only: ctx)
qed

text \<open>The three ways an update goes: nothing buffered, still no full block, a block completed.\<close>

lemma md5_Update_unbuffered:
  "unat (ctx_lo ctx AND 0x3f) = 0 \<Longrightarrow>
     MD5_Update ctx data sz = md5_update_tail (md5_add_count ctx sz) data sz"
  unfolding MD5_Update_def Let_def by (simp only: simp_thms if_False)

lemma md5_Update_within:
  assumes "unat (ctx_lo ctx AND 0x3f) = length r" "r \<noteq> []" "unat sz < 64 - length r"
    and "length (ctx_buffer ctx) = 64" "unat sz \<le> length data"
  shows "MD5_Update ctx data sz = Inr ((md5_add_count ctx sz)
     \<lparr>ctx_buffer := overwrite (ctx_buffer ctx) (length r) (take (unat sz) data)\<rparr>)"
  using assms(2-5) unfolding MD5_Update_def Let_def assms(1) by simp

lemma md5_Update_complete:
  assumes "unat (ctx_lo ctx AND 0x3f) = length r" "r \<noteq> []" "64 - length r \<le> unat sz"
    and "length (ctx_buffer ctx) = 64" "take (length r) (ctx_buffer ctx) = r"
    and "unat sz \<le> length data" "length r < 64"
  shows "MD5_Update ctx data sz =
     (let b = r @ take (64 - length r) data
      in md5_update_tail ((md5_add_count ctx sz)
           \<lparr>ctx_buffer := b, ctx_regs := md5_absorb (ctx_regs ctx) b\<rparr>)
         (drop (64 - length r) data) (sz - of_nat (64 - length r)))"
proof -
  let ?n = "64 - length r"
  let ?b = "r @ take ?n data"
  have b: "overwrite (ctx_buffer ctx) (length r) (take ?n data) = ?b"
    using assms by (simp add: overwrite_def min_absorb1)
  have "length ?b = 64"
    using assms by simp
  then have body: "md5_body (ctx_regs ctx) ?b 64 = Inr (md5_absorb (ctx_regs ctx) ?b, [])"
    by (subst md5_body_absorb) simp_all
  have reads: "mem_read data 0 ?n = Inr (take ?n data)"
      "mem_write (ctx_buffer ctx) (length r) (take ?n data) = Inr ?b"
    using assms b by simp_all
  have "length r \<noteq> 0" "\<not> unat sz < ?n" using assms by simp_all
  then show ?thesis
    unfolding MD5_Update_def Let_def assms(1) md5_add_count_frame
    by (simp only: if_True if_False simp_thms reads cbind_simps body prod.case)
qed

lemma md5_repr_Update:
  assumes "md5_repr ctx m" "unat sz \<le> length data"
  shows "\<exists>ctx'. MD5_Update ctx data sz = Inr ctx' \<and> md5_repr ctx' (m @ take (unat sz) data)"
proof -
  obtain x r where xr: "m = x @ r" "64 dvd length x" "length r < 64" "length m mod 64 = length r"
      "unat (ctx_lo ctx) = length m mod 2 ^ 29"
      "unat (ctx_hi ctx) = length m div 2 ^ 29 mod 2 ^ 32"
      "length (ctx_buffer ctx) = 64"
      "ctx_regs ctx = md5_absorb md5_init_regs x"
      "take (length r) (ctx_buffer ctx) = r"
    using assms(1) by (rule md5_reprE)
  have used: "unat (ctx_lo ctx AND 0x3f) = length r"
    unfolding unat_and_3f xr(5) using xr(4) by (simp add: mod_mod_cancel)
  define m' where "m' = m @ take (unat sz) data"
  have "length m' = length m + unat sz"
    using assms(2) by (simp add: m'_def)
  then have count: "unat (ctx_lo (md5_add_count ctx sz)) = length m' mod 2 ^ 29"
      "unat (ctx_hi (md5_add_count ctx sz)) = length m' div 2 ^ 29 mod 2 ^ 32"
    using md5_add_count_ok [OF xr(5,6)] by (simp_all only:)
  consider "r = []" | "r \<noteq> []" "unat sz < 64 - length r" | "r \<noteq> []" "64 - length r \<le> unat sz"
    by linarith
  then have "\<exists>ctx'. MD5_Update ctx data sz = Inr ctx' \<and> md5_repr ctx' m'"
  proof cases
    case 1
    then show ?thesis
      using used xr(1,2,7,8) assms(2)
      by (subst md5_Update_unbuffered)
        (simp, intro md5_update_tail_repr [of _ x], simp_all add: m'_def count [unfolded m'_def])
  next
    case 2
    let ?d = "take (unat sz) data"
    have "md5_repr ((md5_add_count ctx sz)
        \<lparr>ctx_buffer := overwrite (ctx_buffer ctx) (length r) ?d\<rparr>) m'"
    proof (rule md5_reprI [of m' x "r @ ?d"])
      show "m' = x @ r @ ?d" by (simp add: m'_def xr(1))
    qed (use 2 xr(2,7,8,9) assms(2) in \<open>simp_all add: count overwrite_def min_absorb1\<close>)
    then show ?thesis
      using md5_Update_within [OF used 2 xr(7) assms(2)] by blast
  next
    case 3
    let ?n = "64 - length r"
    let ?b = "r @ take ?n data"
    have sz': "unat (sz - of_nat ?n) = unat sz - ?n"
    proof -
      have "unat (of_nat ?n :: u64) = ?n"
        using xr(3) by (subst unat_of_nat) simp
      then show ?thesis
        using 3 by (subst unat_sub) (simp_all only: word_le_nat_alt)
    qed
    have "take (unat sz) data = take ?n data @ take (unat sz - ?n) (drop ?n data)"
      using 3 by (simp flip: take_add)
    then have m'_eq: "m' = (x @ ?b) @ take (unat (sz - of_nat ?n)) (drop ?n data)"
      unfolding sz' m'_def xr(1) by (simp only: append.assoc)
    have "\<exists>ctx'. md5_update_tail ((md5_add_count ctx sz)
          \<lparr>ctx_buffer := ?b, ctx_regs := md5_absorb (ctx_regs ctx) ?b\<rparr>)
        (drop ?n data) (sz - of_nat ?n) = Inr ctx' \<and> md5_repr ctx' m'"
    proof (rule md5_update_tail_repr [OF _ _ _ _ m'_eq])
      show "unat (sz - of_nat ?n) \<le> length (drop ?n data)"
        unfolding sz' length_drop using assms(2) by (rule diff_le_mono)
      show b: "64 dvd length (x @ ?b)" using xr(2,3) 3 assms(2) by simp
      show "ctx_regs ((md5_add_count ctx sz)
          \<lparr>ctx_buffer := ?b, ctx_regs := md5_absorb (ctx_regs ctx) ?b\<rparr>) =
          md5_absorb md5_init_regs (x @ ?b)"
        using xr(2,8) by (simp add: md5_absorb_append)
    qed (use xr(3) 3 assms(2) in \<open>simp_all add: count\<close>)
    then show ?thesis
      unfolding md5_Update_complete [OF used 3 xr(7,9) assms(2) xr(3)] Let_def .
  qed
  then show ?thesis by (simp add: m'_def)
qed

section \<open>The final block\<close>

lemma upt_8: "[0..<8::nat] = [0, 1, 2, 3, 4, 5, 6, 7]"
  by code_simp

lemma le64_le32: "le64 v = le32 (ucast v) @ le32 (ucast (drop_bit 32 v))"
proof -
  have "ucast (drop_bit k (ucast v :: u32)) = (ucast (drop_bit k v) :: byte)" if "k \<le> 24" for k
    using that by (intro bit_word_eqI) (auto simp: bit_simps)
  moreover have "ucast (drop_bit k (ucast (drop_bit 32 v) :: u32)) = (ucast (drop_bit (32 + k) v) :: byte)"
    if "k \<le> 24" for k
    using that by (intro bit_word_eqI) (auto simp: bit_simps ac_simps)
  moreover have "ucast (ucast v :: u32) = (ucast v :: byte)"
      "ucast (ucast (drop_bit 32 v) :: u32) = (ucast (drop_bit 32 v) :: byte)"
    by (intro bit_word_eqI; auto simp: bit_simps)+
  ultimately show ?thesis
    by (simp add: le64_def le32_def upt_8)
qed

lemma md5_length_field:
  assumes "unat lo = len mod 2 ^ 29" "unat hi = len div 2 ^ 29 mod 2 ^ 32"
  shows "le32 (push_bit 3 lo) @ le32 hi = le64 (of_nat (8 * len))"
proof -
  let ?v = "of_nat (8 * len) :: u64"
  have v: "unat ?v = take_bit 64 (8 * len)"
    by (simp only: unat_of_nat) (simp add: take_bit_eq_mod)
  have "unat (ucast ?v :: u32) = take_bit 32 (8 * len)"
    by (simp only: unsigned_ucast_eq v take_bit_take_bit) simp
  moreover have "unat (push_bit 3 lo) = take_bit 32 (8 * len)"
  proof -
    have "unat (push_bit 3 lo) = 8 * (len mod 2 ^ 29) mod 2 ^ 32"
      by (simp add: push_bit_eq_mult unat_word_ariths assms(1) mult.commute)
    also have "8 * (len mod 2 ^ 29) = (8 * len) mod 2 ^ 32"
      by (simp add: mult_mod_right)
    finally show ?thesis by (simp add: take_bit_eq_mod)
  qed
  ultimately have "ucast ?v = push_bit 3 lo"
    by (simp add: word_unat_eq_iff)
  moreover have "ucast (drop_bit 32 ?v) = hi"
  proof -
    have "unat (ucast (drop_bit 32 ?v) :: u32) = drop_bit 32 (take_bit 64 (8 * len)) mod 2 ^ 32"
      by (simp only: unsigned_ucast_eq unat_drop_bit_eq v) (simp add: take_bit_eq_mod)
    also have "drop_bit 32 (take_bit 64 (8 * len)) = take_bit 32 (drop_bit 32 (8 * len))"
      by (simp add: drop_bit_take_bit)
    also have "drop_bit 32 (8 * len) = len div 2 ^ 29"
      by (simp add: drop_bit_eq_div)
    finally show ?thesis
      by (simp add: word_unat_eq_iff assms(2) take_bit_eq_mod)
  qed
  ultimately show ?thesis by (simp add: le64_le32)
qed

lemma length_le64 [simp]: "length (le64 v) = 8"
  by (simp add: le64_def)

lemma length_le32 [simp]: "length (le32 v) = 4"
  by (simp add: le32_def)

lemma md5_repr_Final:
  assumes "md5_repr ctx m"
  shows "MD5_Final ctx = Inr (md5_digest m)"
proof -
  obtain x r where xr: "m = x @ r" "64 dvd length x" "length r < 64" "length m mod 64 = length r"
      "unat (ctx_lo ctx) = length m mod 2 ^ 29"
      "unat (ctx_hi ctx) = length m div 2 ^ 29 mod 2 ^ 32"
      "length (ctx_buffer ctx) = 64"
      "ctx_regs ctx = md5_absorb md5_init_regs x"
      "take (length r) (ctx_buffer ctx) = r"
    using assms by (rule md5_reprE)
  define L where "L = le64 (of_nat (8 * length m))"
  have L: "le32 (push_bit 3 (ctx_lo ctx)) @ le32 (ctx_hi ctx) = L" "length L = 8"
    using xr(5,6) by (simp_all only: L_def md5_length_field length_le64)
  have used: "unat (ctx_lo ctx AND 0x3f) = length r"
    using xr(4,5) by (simp add: unat_and_3f mod_mod_cancel)
  define buf0 where "buf0 = overwrite (ctx_buffer ctx) (length r) [0x80]"
  have buf0: "length buf0 = 64" "take (length r + 1) buf0 = r @ [0x80]"
    using xr(3,7,9) by (simp_all add: buf0_def overwrite_def)
  show ?thesis
  proof (cases "63 - length r < 8")
    case True
    let ?b1 = "r @ [0x80] @ replicate (63 - length r) 0"
    let ?b2 = "replicate 56 0 @ L"
    have b1: "overwrite buf0 (length r + 1) (replicate (63 - length r) 0) = ?b1"
      using buf0 xr(3) by (simp add: overwrite_def)
    have b2: "overwrite (overwrite ?b1 0 (replicate 56 0)) 56 L = ?b2"
      using xr(3) L(2) by (simp add: overwrite_def)
    have "md5_body (ctx_regs ctx) ?b1 64 = Inr (md5_absorb md5_init_regs (x @ ?b1), [])"
      using xr by (subst md5_body_absorb) (simp_all add: md5_absorb_append)
    moreover have "md5_body st ?b2 64 = Inr (md5_absorb st ?b2, [])" for st
      using L(2) by (subst md5_body_absorb) simp_all
    moreover have "md5_absorb md5_init_regs ((x @ ?b1) @ ?b2) =
        md5_absorb (md5_absorb md5_init_regs (x @ ?b1)) ?b2"
      using xr(2,3) by (intro md5_absorb_append) simp
    moreover have "md5_pad m = (x @ ?b1) @ ?b2"
    proof -
      have "(119 - length r) mod 64 = (63 - length r) + 56"
        using True xr(3) by simp
      then show ?thesis
        unfolding md5_pad_def xr(4) L_def by (simp only: replicate_add) (simp add: xr(1))
    qed
    ultimately show ?thesis
      using True xr(3,7) buf0 L b1 b2
      by (simp add: MD5_Final_def Let_def used md5_digest_def length_overwrite buf0_def [symmetric])
  next
    case False
    let ?b = "r @ [0x80] @ replicate (55 - length r) 0 @ L"
    have b: "overwrite (overwrite buf0 (length r + 1) (replicate (55 - length r) 0)) 56 L = ?b"
    proof -
      have "56 - length r = Suc (55 - length r)" using False by simp
      then show ?thesis using False buf0 L(2) by (simp add: overwrite_def)
    qed
    have "md5_body (ctx_regs ctx) ?b 64 = Inr (md5_absorb md5_init_regs (x @ ?b), [])"
      using False xr L(2) by (subst md5_body_absorb) (simp_all add: md5_absorb_append)
    moreover have "md5_pad m = x @ ?b"
    proof -
      have "(119 - length r) mod 64 = 55 - length r"
        using False by (simp add: mod_if)
      then show ?thesis
        unfolding md5_pad_def xr(4) L_def by (simp only:) (simp add: xr(1))
    qed
    ultimately show ?thesis
      using False xr(3,7) buf0 L b
      by (simp add: MD5_Final_def Let_def used md5_digest_def length_overwrite buf0_def [symmetric])
  qed
qed

lemma length_md5_digest [simp]: "length (md5_digest m) = 16"
  by (simp add: md5_digest_def regs_bytes_def)

section \<open>The interface of an incremental hash\<close>

text \<open>
  What a caller of the hash relies on: a context stands for the bytes fed to it so far, and
  finishing it gives the digest of exactly those bytes. The client's lemmas are proved from
  these laws alone.
\<close>

fun feed :: "('h \<Rightarrow> byte list \<Rightarrow> u64 \<Rightarrow> 'h c) \<Rightarrow> 'h \<Rightarrow> (byte list \<times> u64) list \<Rightarrow> 'h c" where
  "feed upd ctx [] = Inr ctx"
| "feed upd ctx ((data, sz) # cs) = cbind (upd ctx data sz) (\<lambda>ctx'. feed upd ctx' cs)"

definition fed_bytes :: "(byte list \<times> u64) list \<Rightarrow> byte list" where
  "fed_bytes cs = concat (map (\<lambda>(data, sz). take (unat sz) data) cs)"

locale incremental_hash =
  fixes hinit :: "'h \<Rightarrow> 'h"
    and hupdate :: "'h \<Rightarrow> byte list \<Rightarrow> u64 \<Rightarrow> 'h c"
    and hfinal :: "'h \<Rightarrow> byte list c"
    and hready :: "'h \<Rightarrow> bool"
    and hrepr :: "'h \<Rightarrow> byte list \<Rightarrow> bool"
    and hdigest :: "byte list \<Rightarrow> byte list"
  assumes init_repr: "hready ctx \<Longrightarrow> hrepr (hinit ctx) []"
    and update_repr: "hrepr ctx m \<Longrightarrow> unat sz \<le> length data \<Longrightarrow>
      \<exists>ctx'. hupdate ctx data sz = Inr ctx' \<and> hrepr ctx' (m @ take (unat sz) data)"
    and final_digest: "hrepr ctx m \<Longrightarrow> hfinal ctx = Inr (hdigest m)"
begin

lemma feed_repr:
  "hrepr ctx m \<Longrightarrow> \<forall>(data, sz) \<in> set cs. unat sz \<le> length data \<Longrightarrow>
     \<exists>ctx'. feed hupdate ctx cs = Inr ctx' \<and> hrepr ctx' (m @ fed_bytes cs)"
proof (induction cs arbitrary: ctx m)
  case Nil
  then show ?case by (simp add: fed_bytes_def)
next
  case (Cons c cs)
  obtain data sz where c: "c = (data, sz)" by (cases c)
  then obtain ctx1 where "hupdate ctx data sz = Inr ctx1" "hrepr ctx1 (m @ take (unat sz) data)"
    using update_repr [of ctx m sz data] Cons.prems by auto
  then show ?case
    using Cons.IH [of ctx1 "m @ take (unat sz) data"] Cons.prems c by (simp add: fed_bytes_def)
qed

lemma feed_digest:
  assumes "hready ctx" "\<forall>(data, sz) \<in> set cs. unat sz \<le> length data"
  shows "cbind (feed hupdate (hinit ctx) cs) hfinal = Inr (hdigest (fed_bytes cs))"
  using feed_repr [OF init_repr [OF assms(1)] assms(2)] final_digest by auto

lemma two_updates_digest:
  assumes "hready ctx" "unat n1 \<le> length d1" "unat n2 \<le> length d2"
  shows "cbind (hupdate (hinit ctx) d1 n1) (\<lambda>c1. cbind (hupdate c1 d2 n2) hfinal) =
     Inr (hdigest (take (unat n1) d1 @ take (unat n2) d2))"
  using feed_digest [of ctx "[(d1, n1), (d2, n2)]"] assms by (simp add: fed_bytes_def)

end

interpretation md5: incremental_hash MD5_Init MD5_Update MD5_Final
    "\<lambda>ctx. length (ctx_buffer ctx) = 64" md5_repr md5_digest
  by unfold_locales (auto intro: md5_repr_Init md5_repr_Update md5_repr_Final)

section \<open>A test vector of RFC 1321\<close>

lemma zeros_52: "replicate 52 (0 :: byte) =
      [0, 0, 0, 0, 0, 0, 0, 0, 0, 0, 0, 0, 0,
       0, 0, 0, 0, 0, 0, 0, 0, 0, 0, 0, 0, 0,
       0, 0, 0, 0, 0, 0, 0, 0, 0, 0, 0, 0, 0,
       0, 0, 0, 0, 0, 0, 0, 0, 0, 0, 0, 0, 0]"
  by code_simp

lemma pad_abc: "md5_pad (bytes ''abc'') =
      [0x61, 0x62, 0x63, 0x80,
       0, 0, 0, 0, 0, 0, 0, 0, 0, 0, 0, 0, 0,
       0, 0, 0, 0, 0, 0, 0, 0, 0, 0, 0, 0, 0,
       0, 0, 0, 0, 0, 0, 0, 0, 0, 0, 0, 0, 0,
       0, 0, 0, 0, 0, 0, 0, 0, 0, 0, 0, 0, 0,
       24, 0, 0, 0, 0, 0, 0, 0]"
  by (simp add: md5_pad_def bytes_def le64_def upt_8 zeros_52)

lemma md5_digest_abc:
  "md5_digest (bytes ''abc'') =
     [0x90, 0x01, 0x50, 0x98, 0x3c, 0xd2, 0x4f, 0xb0,
      0xd6, 0x96, 0x3f, 0x7d, 0x28, 0xe1, 0x7f, 0x72]"
proof -
  let ?b = "[0x61, 0x62, 0x63, 0x80,
       0, 0, 0, 0, 0, 0, 0, 0, 0, 0, 0, 0, 0,
       0, 0, 0, 0, 0, 0, 0, 0, 0, 0, 0, 0, 0,
       0, 0, 0, 0, 0, 0, 0, 0, 0, 0, 0, 0, 0,
       0, 0, 0, 0, 0, 0, 0, 0, 0, 0, 0, 0, 0,
       24, 0, 0, 0, 0, 0, 0, 0 :: byte]"
  have "md5_SET ?b 0 = 0x80636261" "md5_SET ?b 1 = 0" "md5_SET ?b 2 = 0" "md5_SET ?b 3 = 0"
     "md5_SET ?b 4 = 0" "md5_SET ?b 5 = 0" "md5_SET ?b 6 = 0" "md5_SET ?b 7 = 0"
     "md5_SET ?b 8 = 0" "md5_SET ?b 9 = 0" "md5_SET ?b 10 = 0" "md5_SET ?b 11 = 0"
     "md5_SET ?b 12 = 0" "md5_SET ?b 13 = 0" "md5_SET ?b 14 = 24" "md5_SET ?b 15 = 0"
    by (simp_all add: md5_SET_def)
  then have "md5_block ?b md5_init_regs =
      \<lparr>reg_a = 0x98500190, reg_b = 0xb04fd23c, reg_c = 0x7d3f96d6, reg_d = 0x727fe128\<rparr>"
    by (simp add: md5_block_def add_regs_def md5_init_regs_def md5_program_def md5_STEP_def
        md5_F_def md5_G_def md5_H_def md5_H2_def md5_I_def Let_def)
  then show ?thesis
    by (simp only: md5_digest_def pad_abc) (simp add: md5_absorb_block md5_block_rfc [symmetric] regs_bytes_def le32_def)
qed

section \<open>Properties\<close>

text \<open>
  C7 (equivalence): one turn of the unrolled loop of \<open>body\<close> (its 64 macro lines over
  rotating register names, with the rewritten round functions F and G) is the block function
  of RFC 1321, for every block and every chaining value.
\<close>

theorem md5_block_correct: "md5_block blk st = rfc_block blk st"
  by (simp only: md5_block_rfc)

text \<open>
  C21 (termination): over an object of fewer than 2^64 bytes the do-while loop of
  \<open>body\<close> returns exactly when the size is a positive multiple of 64 that the object
  holds; it has then consumed exactly those bytes block by block and hands back the pointer
  behind them. Any other size (zero, no multiple of 64, too large) takes it past the object.
\<close>

theorem md5_body_returns:
  assumes "length ptr < 2 ^ 64"
  shows "md5_body st ptr sz =
     (if 64 dvd unat sz \<and> 0 < unat sz \<and> unat sz \<le> length ptr
      then Inr (md5_absorb st (take (unat sz) ptr), drop (unat sz) ptr)
      else Inl Undefined)"
  using assms by (simp add: md5_body_absorb md5_body_overrun)

theorem md5_body_returns_witness:
  "md5_body md5_init_regs (replicate 130 0) 128 =
     Inr (md5_absorb md5_init_regs (replicate 128 0), replicate 2 0) \<and>
   md5_body md5_init_regs (replicate 130 0) 100 = Inl Undefined \<and>
   md5_body md5_init_regs (replicate 130 0) 0 = Inl Undefined"
  using md5_body_returns [of "replicate 130 0" md5_init_regs 128]
    md5_body_returns [of "replicate 130 0" md5_init_regs 100]
    md5_body_returns [of "replicate 130 0" md5_init_regs 0] by simp

text \<open>
  C8 (refinement): whatever the split of a message over calls of \<open>MD5_Update\<close>, and
  whatever the buffer held before \<open>MD5_Init\<close>, \<open>MD5_Final\<close> returns the RFC 1321 digest
  of the concatenated bytes: buffering, the byte count and the padding are right, and no call
  reads or writes outside its objects.
\<close>

theorem md5_streaming_correct:
  assumes "length (ctx_buffer ctx) = 64" "\<forall>(data, sz) \<in> set cs. unat sz \<le> length data"
  shows "cbind (feed MD5_Update (MD5_Init ctx) cs) MD5_Final = Inr (md5_digest (fed_bytes cs))"
  using assms by (rule md5.feed_digest)

theorem md5_streaming_correct_witness:
  "cbind (feed MD5_Update
      (MD5_Init \<lparr>ctx_lo = 7, ctx_hi = 7, ctx_regs = md5_init_regs, ctx_buffer = replicate 64 9\<rparr>)
      [(bytes ''a'', 1), (bytes ''bcd'', 2)]) MD5_Final =
   Inr [0x90, 0x01, 0x50, 0x98, 0x3c, 0xd2, 0x4f, 0xb0,
        0xd6, 0x96, 0x3f, 0x7d, 0x28, 0xe1, 0x7f, 0x72]"
proof -
  have "fed_bytes [(bytes ''a'', 1), (bytes ''bcd'', 2)] = bytes ''abc''"
    by (simp add: fed_bytes_def bytes_def)
  then show ?thesis
    using md5_streaming_correct [of "\<lparr>ctx_lo = 7, ctx_hi = 7, ctx_regs = md5_init_regs,
        ctx_buffer = replicate 64 9\<rparr>" "[(bytes ''a'', 1), (bytes ''bcd'', 2)]"]
    by (simp add: md5_digest_abc)
qed

end
