(* ===== verification/Image.thy ===== *)
theory Image
  imports ImageParts Md5
begin

text \<open>
  The image builders of tools/tplink-safeloader/tplink-safeloader.c: \<open>put_partitions\<close>,
  \<open>put_md5\<close>, \<open>generate_factory_image\<close>, \<open>generate_sysupgrade_image\<close> and
  \<open>build_image\<close>. An image is the byte list of its buffer; offsets are relative to its start.
\<close>

section \<open>Copying the partitions and writing the image partition table\<close>

text \<open>One line of the image partition table.\<close>

definition image_line :: "cstr \<Rightarrow> u32 \<Rightarrow> u32 \<Rightarrow> byte list" where
  "image_line n b s =
     bytes ''fwup-ptn '' @ n @ bytes '' base 0x'' @ fmt_05x b @ bytes '' size 0x'' @ fmt_05x s @
     [9, 13, 10]"

text \<open>The scan over \<open>flash_parts\<close> for a name: the entry, or the null that ends the array.\<close>

fun find_flash :: "flash_partition_entry list \<Rightarrow> cstr \<Rightarrow> flash_partition_entry option c" where
  "find_flash [] n = Inl Undefined"
| "find_flash (fp # fps) n =
     (case fp_name fp of
        None \<Rightarrow> Inr None
      | Some n' \<Rightarrow> if n' = n then Inr (Some fp) else find_flash fps n)"

fun put_partitions_loop ::
  "flash_partition_entry list \<Rightarrow> byte list \<Rightarrow> nat \<Rightarrow> nat \<Rightarrow> image_partition_entry list \<Rightarrow> byte list c"
where
  "put_partitions_loop flash_parts buffer image_pt base [] = Inl Undefined"
| "put_partitions_loop flash_parts buffer image_pt base (p # ps) =
     (case ip_name p of
        None \<Rightarrow> Inr buffer
      | Some n \<Rightarrow>
          cbind (find_flash flash_parts n) (\<lambda>found.
          cbind (case found of
                   None \<Rightarrow> Inr ()
                 | Some fp \<Rightarrow> error_if (ip_size p > unat (fp_size fp)) ''partition too big'') (\<lambda>_.
          cbind (c_assert (found \<noteq> None)) (\<lambda>_.
          cbind (mem_read (ip_data p) 0 (ip_size p)) (\<lambda>data.
          cbind (mem_write buffer base data) (\<lambda>buffer1.
          (let len = 0x800 - image_pt;
               text = image_line n (of_nat base) (of_nat (ip_size p));
               w = length text
           in cbind (snprintf_at buffer1 image_pt len text) (\<lambda>buffer2.
              cbind (error_if (len \<noteq> 0 \<and> w > len - 1) ''image partition table overflow?'') (\<lambda>_.
              put_partitions_loop flash_parts buffer2 (image_pt + w) (base + ip_size p) ps)))))))))"

definition put_partitions ::
  "byte list \<Rightarrow> flash_partition_entry list \<Rightarrow> image_partition_entry list \<Rightarrow> byte list c" where
  "put_partitions buffer flash_parts parts = put_partitions_loop flash_parts buffer 0 0x800 parts"

section \<open>The checksum\<close>

definition md5_salt :: "byte list" where
  "md5_salt = [0x7a, 0x2b, 0x15, 0xed, 0x9b, 0x98, 0x59, 0x6d,
               0xe5, 0x04, 0xab, 0x44, 0xac, 0x2a, 0x9f, 0x4e]"

text \<open>
  The local \<open>MD5_CTX\<close> is uninitialised; \<open>MD5_Init\<close> sets every member but the buffer,
  so only the buffer's arbitrary contents matter here.
\<close>

definition uninit_ctx :: "c_env \<Rightarrow> md5_ctx" where
  "uninit_ctx env =
     \<lparr>ctx_lo = 0, ctx_hi = 0, ctx_regs = md5_init_regs, ctx_buffer = uninit env ''ctx'' 64\<rparr>"

text \<open>
  \<open>put_md5(image + md5, image + buffer, len)\<close>; the hash is stored into the image the data
  comes from, after all of it has been read.
\<close>

definition put_md5 :: "c_env \<Rightarrow> byte list \<Rightarrow> nat \<Rightarrow> nat \<Rightarrow> u32 \<Rightarrow> byte list c" where
  "put_md5 env img md5 buffer len =
     cbind (MD5_Update (MD5_Init (uninit_ctx env)) md5_salt (of_nat (length md5_salt))) (\<lambda>ctx1.
     cbind (MD5_Update ctx1 (drop buffer img) (ucast len)) (\<lambda>ctx2.
     cbind (MD5_Final ctx2) (\<lambda>digest.
     mem_write img md5 digest)))"

section \<open>The factory image\<close>

fun sum_sizes :: "image_partition_entry list \<Rightarrow> nat c" where
  "sum_sizes [] = Inl Undefined"
| "sum_sizes (p # ps) =
     (case ip_name p of None \<Rightarrow> Inr 0 | Some _ \<Rightarrow> cbind (sum_sizes ps) (\<lambda>n. Inr (ip_size p + n)))"

definition put_vendor :: "byte list \<Rightarrow> cstr option \<Rightarrow> byte list c" where
  "put_vendor img vendor =
     (case vendor of
        None \<Rightarrow> Inr img
      | Some v \<Rightarrow>
          cbind (put32 img 0x14 (of_nat (length v))) (\<lambda>image1. mem_write image1 0x18 v))"

definition generate_factory_image ::
  "c_env \<Rightarrow> device_info \<Rightarrow> image_partition_entry list \<Rightarrow> byte list c" where
  "generate_factory_image env info parts =
     cbind (sum_sizes parts) (\<lambda>n.
     (let len = 0x1814 + n in
      cbind (error_if (\<not> malloc_ok env len) ''malloc'') (\<lambda>_.
      (let image0 = replicate len 0xff in
       cbind (put32 image0 0 (of_nat len)) (\<lambda>image1.
       cbind (put_vendor image1 (di_vendor info)) (\<lambda>image2.
       cbind (put_partitions (drop 0x1014 image2) (di_partitions info) parts) (\<lambda>buffer.
       put_md5 env (take 0x1014 image2 @ buffer) 0x04 0x14 (of_nat (len - 0x14)))))))))"

section \<open>The sysupgrade image\<close>

text \<open>The indices of the first and the last partition; a later match replaces an earlier one.\<close>

fun sysupgrade_range ::
  "cstr \<Rightarrow> cstr \<Rightarrow> nat \<Rightarrow> nat option \<times> nat option \<Rightarrow> flash_partition_entry list \<Rightarrow>
     (nat option \<times> nat option) c" where
  "sysupgrade_range fst_n lst_n i acc [] = Inl Undefined"
| "sysupgrade_range fst_n lst_n i acc (fp # fps) =
     (case fp_name fp of
        None \<Rightarrow> Inr acc
      | Some n \<Rightarrow>
          sysupgrade_range fst_n lst_n (i + 1)
            (if n = fst_n then (Some i, snd acc)
             else if n = lst_n then (fst acc, Some i)
             else acc) fps)"

fun find_image :: "image_partition_entry list \<Rightarrow> cstr \<Rightarrow> image_partition_entry option c" where
  "find_image [] n = Inl Undefined"
| "find_image (p # ps) n =
     (case ip_name p of
        None \<Rightarrow> Inr None
      | Some n' \<Rightarrow> if n' = n then Inr (Some p) else find_image ps n)"

text \<open>
  The copy loop, for the flash partitions of the range. The inner loop looks the image
  partition up (its \<open>assert(image_parts[j].name)\<close> stands inside the loop that this condition
  guards, so it never fails); a flash partition with no image partition is left as it is.
  Addresses are flat: the target is an offset into the image.
\<close>

fun sysupgrade_copy ::
  "image_partition_entry list \<Rightarrow> u32 \<Rightarrow> byte list \<Rightarrow> flash_partition_entry list \<Rightarrow> byte list c" where
  "sysupgrade_copy parts first_base img [] = Inr img"
| "sysupgrade_copy parts first_base img (fp # fps) =
     (case fp_name fp of
        None \<Rightarrow> Inl Undefined
      | Some n \<Rightarrow>
          cbind (find_image parts n) (\<lambda>found.
          cbind (case found of
                   None \<Rightarrow> Inr img
                 | Some p \<Rightarrow>
                     cbind (error_if (ip_size p > unat (fp_size fp)) ''partition too big'') (\<lambda>_.
                     cbind (defined_if (first_base \<le> fp_base fp)) (\<lambda>_.
                     cbind (mem_read (ip_data p) 0 (ip_size p)) (\<lambda>data.
                     mem_write img (unat (fp_base fp) - unat first_base) data))))
            (\<lambda>img'. sysupgrade_copy parts first_base img' fps)))"

definition generate_sysupgrade_image ::
  "c_env \<Rightarrow> device_info \<Rightarrow> image_partition_entry list \<Rightarrow> byte list c" where
  "generate_sysupgrade_image env info image_parts =
     cbind (sysupgrade_range (di_first info) (di_last info) 0 (None, None) (di_partitions info))
       (\<lambda>(flash_first, flash_last).
     cbind (c_assert (flash_first \<noteq> None \<and> flash_last \<noteq> None)) (\<lambda>_.
     cbind (c_assert (the flash_first < the flash_last)) (\<lambda>_.
     cbind (find_image image_parts (di_last info)) (\<lambda>image_last.
     cbind (c_assert (image_last \<noteq> None)) (\<lambda>_.
     (let first_base = fp_base (di_partitions info ! the flash_first);
          last_base = fp_base (di_partitions info ! the flash_last);
          len = unat (last_base - first_base) + ip_size (the image_last)
      in cbind (error_if (\<not> malloc_ok env len) ''malloc'') (\<lambda>_.
         sysupgrade_copy image_parts first_base (replicate len 0xff)
           (map (\<lambda>i. di_partitions info ! i) [the flash_first..<the flash_last + 1]))))))))"

section \<open>Building an image\<close>

definition extra_para_a :: "byte list" where
  "extra_para_a = [0x00, 0x00, 0x00, 0x02, 0x00, 0x00, 0x00, 0x00, 0x01, 0x00, 0x00]"

definition extra_para_b :: "byte list" where
  "extra_para_b = [0x01, 0x00, 0x00, 0x02, 0x00, 0x00, 0xca, 0x00, 0x01, 0x00, 0x00]"

definition id_is :: "device_info \<Rightarrow> string \<Rightarrow> bool" where
  "id_is info s = (case di_id info of None \<Rightarrow> False | Some i \<Rightarrow> strcasecmp_eq i (bytes s))"

text \<open>
  The array \<open>parts[9]\<close> of \<open>build_image\<close>: zeroed, then filled in the source's order. The
  local array \<open>mdat\<close> of 4096 bytes is uninitialised where the two strings do not reach.
\<close>

definition build_parts ::
  "c_env \<Rightarrow> int \<Rightarrow> cstr \<Rightarrow> cstr \<Rightarrow> cstr \<Rightarrow> u32 \<Rightarrow> device_info \<Rightarrow> image_partition_entry list c" where
  "build_parts env sde kernel_image rootfs_image genesis_image rv info =
     (let parts = replicate 9 image_null in
      cbind (make_partition_table env (di_partitions info)) (\<lambda>p0.
      cbind (case di_soft_ver info of
               Some s \<Rightarrow> make_soft_version_from_string env s
             | None \<Rightarrow> make_soft_version env sde rv) (\<lambda>p1.
      cbind (make_support_list env info) (\<lambda>p2.
      cbind (read_file_split2 env ''os-image'' kernel_image rootfs_image False) (\<lambda>p3.
      cbind (if id_is info ''ARCHER-C25-V1'' \<or> id_is info ''ARCHER-C60-V2'' \<or> id_is info ''TLWR1043NV5''
             then put_data env ''extra-para'' extra_para_a 11
             else if id_is info ''ARCHER-C7-V4'' \<or> id_is info ''ARCHER-C7-V5''
             then put_data env ''extra-para'' extra_para_b 11
             else Inr image_null) (\<lambda>p4.
      cbind (mem_write (uninit env ''mdat'' 4096) 0
               (bytes ''here should be lots of high quality randomness'' @ [0])) (\<lambda>mdat1.
      cbind (put_data env ''identity'' mdat1 4096) (\<lambda>p5.
      cbind (mem_write mdat1 0 (replicate 1024 0)) (\<lambda>mdat2.
      cbind (mem_write mdat2 0
               (bytes ''here should be a file system? no idea what to use this for yet'' @ [0])) (\<lambda>mdat3.
      cbind (put_data env ''sysconf'' mdat3 1024) (\<lambda>p6.
      cbind (read_file env ''file-system'' genesis_image False) (\<lambda>p7.
      Inr (parts[0 := p0, 1 := p1, 2 := p2, 3 := p3, 4 := p4, 5 := p5, 6 := p6, 7 := p7])))))))))))))"

text \<open>
  \<open>build_image\<close> gives the contents written to \<open>output\<close>. The flag \<open>add_jffs2_eof\<close>
  is taken and not used. \<open>fwrite(image, len, 1, file)\<close> of no bytes returns zero.
\<close>

definition build_image ::
  "c_env \<Rightarrow> int \<Rightarrow> cstr \<Rightarrow> cstr \<Rightarrow> cstr \<Rightarrow> cstr \<Rightarrow> u32 \<Rightarrow> bool \<Rightarrow> bool \<Rightarrow> device_info \<Rightarrow> byte list c"
where
  "build_image env sde out kernel_image rootfs_image genesis_image rv add_jffs2_eof sysupgrade info =
     cbind (build_parts env sde kernel_image rootfs_image genesis_image rv info) (\<lambda>parts.
     cbind (if sysupgrade then generate_sysupgrade_image env info parts
            else generate_factory_image env info parts) (\<lambda>img.
     cbind (error_if (\<not> can_write env out) ''unable to open output file'') (\<lambda>_.
     cbind (error_if (img = []) ''unable to write output file'') (\<lambda>_.
     Inr img))))"

section \<open>What the partition loop writes\<close>

definition wf_part :: "image_partition_entry \<Rightarrow> bool" where
  "wf_part p \<longleftrightarrow> length (ip_data p) = ip_size p"

definition part_data :: "image_partition_entry list \<Rightarrow> byte list" where
  "part_data es = concat (map ip_data es)"

fun image_text :: "nat \<Rightarrow> image_partition_entry list \<Rightarrow> byte list" where
  "image_text base [] = []"
| "image_text base (p # ps) =
     image_line (the (ip_name p)) (of_nat base) (of_nat (ip_size p)) @ image_text (base + ip_size p) ps"

definition total_size :: "image_partition_entry list \<Rightarrow> nat" where
  "total_size es = sum_list (map ip_size es)"

lemma part_data_simps [simp]:
  "part_data [] = []" "part_data (p # es) = ip_data p @ part_data es"
  by (simp_all add: part_data_def)

lemma total_size_simps [simp]:
  "total_size [] = 0" "total_size (p # es) = ip_size p + total_size es"
  by (simp_all add: total_size_def)

lemma length_part_data: "\<forall>p \<in> set es. wf_part p \<Longrightarrow> length (part_data es) = total_size es"
  by (induction es) (auto simp: wf_part_def)

lemma live_parts_simps [simp]:
  "live_parts [] = []"
  "live_parts (p # ps) = (if ip_name p = None then [] else p # live_parts ps)"
  by (simp_all add: live_parts_def)

lemma terminated_parts_simps [simp]:
  "\<not> terminated_parts []"
  "terminated_parts (p # ps) \<longleftrightarrow> ip_name p = None \<or> terminated_parts ps"
  by (auto simp: terminated_parts_def)

lemma find_flash_eq:
  "terminated_flash fps \<Longrightarrow> find_flash fps n = Inr (flash_lookup (live_flash fps) n)"
  by (induction fps n rule: find_flash.induct)
    (auto simp: terminated_flash_def live_flash_def flash_lookup_def split: option.splits)

lemma sum_sizes_eq: "terminated_parts ps \<Longrightarrow> sum_sizes ps = Inr (total_size (live_parts ps))"
  by (induction ps rule: sum_sizes.induct) (auto split: option.splits)

lemma room_in_lookup:
  "room_in ps n k \<Longrightarrow> \<exists>fp. flash_lookup ps n = Some fp \<and> k \<le> unat (fp_size fp)"
  by (auto simp: room_in_def split: option.splits)

lemma overwrite_commute:
  assumes "off1 + length d1 \<le> off2" "off2 + length d2 \<le> length buf"
  shows "overwrite (overwrite buf off1 d1) off2 d2 = overwrite (overwrite buf off2 d2) off1 d1"
  using assms by (intro nth_equalityI) (auto simp: length_overwrite nth_overwrite)

lemma image_line_ne: "0 < length (image_line n b s)"
  by (simp add: image_line_def)

lemma put_partitions_loop_ok:
  assumes "terminated_flash fl" "terminated_parts ps"
    and "\<forall>p \<in> set (live_parts ps). wf_part p \<and> room_in (live_flash fl) (the (ip_name p)) (ip_size p)"
    and "base + total_size (live_parts ps) \<le> length buffer"
    and "pt + length (image_text base (live_parts ps)) < 0x800" "0x800 \<le> base"
  shows "put_partitions_loop fl buffer pt base ps =
     Inr (if live_parts ps = [] then buffer
          else overwrite (overwrite buffer base (part_data (live_parts ps))) pt
            (image_text base (live_parts ps) @ [0]))"
  using assms
proof (induction fl buffer pt base ps rule: put_partitions_loop.induct)
  case (2 fl buffer pt base p ps)
  show ?case
  proof (cases "ip_name p")
    case None
    then show ?thesis by simp
  next
    case (Some n)
    let ?l = "image_line n (of_nat base) (of_nat (ip_size p))" and ?d = "ip_data p"
    let ?D = "part_data (live_parts ps)" and ?T = "image_text (base + ip_size p) (live_parts ps)"
    have live: "live_parts (p # ps) = p # live_parts ps" using Some by simp
    have trm: "terminated_parts ps" using "2.prems"(2) Some by simp
    have D: "length ?d = ip_size p" "length ?D = total_size (live_parts ps)"
      using "2.prems"(3) Some by (auto simp: wf_part_def length_part_data)
    have fits: "base + length ?d + length ?D \<le> length buffer" "pt + length ?l + length ?T < 0x800"
      using "2.prems"(4,5) Some D by simp_all
    obtain fp where fp: "find_flash fl n = Inr (Some fp)" "ip_size p \<le> unat (fp_size fp)"
      using "2.prems"(1,3) Some room_in_lookup [of "live_flash fl" n "ip_size p"]
      by (auto simp: find_flash_eq)
    let ?b1 = "overwrite buffer base ?d"
    let ?b2 = "overwrite ?b1 pt (?l @ [0])"
    have snp: "snprintf_at ?b1 pt (0x800 - pt) ?l = Inr ?b2"
      using fits "2.prems"(6) by (intro snprintf_at_fits) (simp_all add: length_overwrite)
    have step: "put_partitions_loop fl buffer pt base (p # ps) =
        put_partitions_loop fl ?b2 (pt + length ?l) (base + ip_size p) ps"
    proof -
      have "\<not> 0x800 - Suc pt < length ?l" using fits(2) by linarith
      then show ?thesis
        using Some fp snp D(1) fits(1) by (simp add: Let_def)
    qed
    have "put_partitions_loop fl ?b2 (pt + length ?l) (base + ip_size p) ps =
       Inr (if live_parts ps = [] then ?b2
            else overwrite (overwrite ?b2 (base + ip_size p) ?D) (pt + length ?l) (?T @ [0]))"
      using "2.prems" Some trm fits D
      by (intro "2.IH" [OF Some]) (auto simp: length_overwrite)
    moreover have "overwrite (overwrite ?b2 (base + ip_size p) ?D) (pt + length ?l) (?T @ [0]) =
        overwrite (overwrite buffer base (?d @ ?D)) pt (?l @ ?T @ [0])"
    proof -
      have "overwrite ?b2 (base + ip_size p) ?D =
          overwrite (overwrite ?b1 (base + ip_size p) ?D) pt (?l @ [0])"
        using fits "2.prems"(6) D by (intro overwrite_commute) (simp_all add: length_overwrite)
      also have "overwrite ?b1 (base + ip_size p) ?D = overwrite buffer base (?d @ ?D)"
        using fits D by (intro overwrite_adjacent) simp_all
      finally show ?thesis
        using fits "2.prems"(6) by (simp, subst overwrite_extend) (simp_all add: length_overwrite)
    qed
    ultimately show ?thesis
      using step live Some by simp
  qed
qed simp_all

text \<open>Conversely, a loop that ends without an error has checked every partition.\<close>

lemma put_partitions_loop_checks:
  assumes "terminated_flash fl" "put_partitions_loop fl buffer pt base ps = Inr b" "pt < 0x800"
  shows "(\<forall>p \<in> set (live_parts ps). room_in (live_flash fl) (the (ip_name p)) (ip_size p)) \<and>
     pt + length (image_text base (live_parts ps)) < 0x800"
  using assms
proof (induction fl buffer pt base ps rule: put_partitions_loop.induct)
  case (2 fl buffer pt base p ps)
  show ?case
  proof (cases "ip_name p")
    case None
    then show ?thesis using "2.prems" by simp
  next
    case (Some n)
    let ?l = "image_line n (of_nat base) (of_nat (ip_size p))"
    obtain fp b2 where fp: "flash_lookup (live_flash fl) n = Some fp" "ip_size p \<le> unat (fp_size fp)"
      "\<not> 0x800 - pt - 1 < length ?l"
      "put_partitions_loop fl b2 (pt + length ?l) (base + ip_size p) ps = Inr b"
      using "2.prems" Some
      by (auto simp: find_flash_eq Let_def cbind_Inr_iff split: option.splits)
    then have "pt + length ?l < 0x800" using "2.prems"(3) by linarith
    then have "(\<forall>p \<in> set (live_parts ps). room_in (live_flash fl) (the (ip_name p)) (ip_size p)) \<and>
        pt + length ?l + length (image_text (base + ip_size p) (live_parts ps)) < 0x800"
      using "2.IH" [OF Some refl refl refl "2.prems"(1) fp(4)] by blast
    then show ?thesis using Some fp by (simp add: room_in_def)
  qed
qed simp

section \<open>The checksum that is written\<close>

lemma md5_salt_length [simp]: "length md5_salt = 16"
  by (simp add: md5_salt_def)

lemma put_md5_eq:
  assumes "unat len \<le> length img - buffer"
  shows "put_md5 env img md5 buffer len =
     mem_write img md5 (md5_digest (md5_salt @ take (unat len) (drop buffer img)))"
proof -
  have len: "unat (ucast len :: u64) = unat len"
    by (simp add: unsigned_ucast_eq take_bit_nat_eq_self order_less_le_trans [OF unsigned_less])
  let ?m = "MD5_Update (MD5_Init (uninit_ctx env)) md5_salt (of_nat (length md5_salt))"
  have "cbind ?m (\<lambda>c1. cbind (MD5_Update c1 (drop buffer img) (ucast len)) MD5_Final) =
      Inr (md5_digest (md5_salt @ take (unat len) (drop buffer img)))"
    using assms by (subst md5.two_updates_digest) (simp_all add: uninit_ctx_def len)
  then have "cbind (cbind ?m (\<lambda>c1. cbind (MD5_Update c1 (drop buffer img) (ucast len)) MD5_Final))
      (mem_write img md5) = mem_write img md5 (md5_digest (md5_salt @ take (unat len) (drop buffer img)))"
    by simp
  then show ?thesis
    by (simp add: put_md5_def del: md5_salt_length)
qed

section \<open>The factory image as a value\<close>

text \<open>
  The format the tool documents: image size, checksum over the rest, the vendor block of
  0x1000 bytes, the image partition table of 0x800 bytes, the partitions back to back.
\<close>

definition vendor_block :: "cstr option \<Rightarrow> byte list" where
  "vendor_block vendor =
     (case vendor of
        None \<Rightarrow> replicate 0x1000 0xff
      | Some v \<Rightarrow> be32 (of_nat (length v)) @ v @ replicate (0xffc - length v) 0xff)"

definition table_block :: "image_partition_entry list \<Rightarrow> byte list" where
  "table_block es = (let t = image_text 0x800 es in t @ [0] @ replicate (0x7ff - length t) 0xff)"

definition factory_body :: "device_info \<Rightarrow> image_partition_entry list \<Rightarrow> byte list" where
  "factory_body info es = vendor_block (di_vendor info) @ table_block es @ part_data es"

definition factory_image :: "device_info \<Rightarrow> image_partition_entry list \<Rightarrow> byte list" where
  "factory_image info es =
     be32 (of_nat (0x1814 + total_size es)) @ md5_digest (md5_salt @ factory_body info es) @
     factory_body info es"

definition vendor_fits :: "device_info \<Rightarrow> bool" where
  "vendor_fits info = (case di_vendor info of None \<Rightarrow> True | Some v \<Rightarrow> length v \<le> 0xffc)"

lemma length_vendor_block: "vendor_fits info \<Longrightarrow> length (vendor_block (di_vendor info)) = 0x1000"
  by (auto simp: vendor_fits_def vendor_block_def split: option.splits)

lemma length_table_block: "length (image_text 0x800 es) < 0x800 \<Longrightarrow> length (table_block es) = 0x800"
  by (simp add: table_block_def Let_def)

lemma put_vendor_ok:
  assumes "vendor_fits info" "length hd16 = 16"
  shows "put_vendor (be32 n @ hd16 @ replicate (0x1000 + k) 0xff) (di_vendor info) =
     Inr (be32 n @ hd16 @ vendor_block (di_vendor info) @ replicate k 0xff)"
proof (cases "di_vendor info")
  case None
  then show ?thesis by (simp add: put_vendor_def vendor_block_def replicate_add)
next
  case (Some v)
  let ?i = "be32 n @ hd16 @ replicate (0x1000 + k) 0xff"
  have v: "length v \<le> 0xffc" using assms Some by (simp add: vendor_fits_def)
  then have "overwrite (overwrite ?i 0x14 (be32 (of_nat (length v)))) 0x18 v =
      overwrite ?i 0x14 (be32 (of_nat (length v)) @ v)"
    by (intro overwrite_adjacent) simp_all
  also have "\<dots> = be32 n @ hd16 @ (be32 (of_nat (length v)) @ v) @ replicate (0x1000 + k - (4 + length v)) 0xff"
  proof -
    have "?i = (be32 n @ hd16) @ replicate (0x1000 + k) 0xff" by simp
    then show ?thesis using assms(2) by (simp only: overwrite_append length_append length_be32) simp
  qed
  also have "replicate (0x1000 + k - (4 + length v)) (0xff :: byte) =
      replicate (0xffc - length v) 0xff @ replicate k 0xff"
    using v by (simp flip: replicate_add)
  finally show ?thesis
    using Some v assms(2)
    by (simp add: put_vendor_def put32_def vendor_block_def length_overwrite replicate_add)
qed

lemma put_partitions_fresh:
  assumes "terminated_flash fl" "terminated_parts parts" "live_parts parts \<noteq> []"
    and "\<forall>p \<in> set (live_parts parts). wf_part p \<and>
      room_in (live_flash fl) (the (ip_name p)) (ip_size p)"
    and "length (image_text 0x800 (live_parts parts)) < 0x800"
  shows "put_partitions (replicate (0x800 + total_size (live_parts parts)) 0xff) fl parts =
     Inr (table_block (live_parts parts) @ part_data (live_parts parts))"
proof -
  let ?es = "live_parts parts" and ?n = "total_size (live_parts parts)"
  let ?b = "replicate (0x800 + ?n) (0xff :: byte)" and ?t = "image_text 0x800 ?es"
  have D: "length (part_data ?es) = ?n" using assms(4) by (simp add: length_part_data)
  have "put_partitions ?b fl parts = Inr (overwrite (overwrite ?b 0x800 (part_data ?es)) 0 (?t @ [0]))"
    unfolding put_partitions_def using assms by (subst put_partitions_loop_ok) simp_all
  also have "overwrite ?b 0x800 (part_data ?es) = replicate 0x800 0xff @ part_data ?es"
    by (subst replicate_add, subst overwrite_append) (simp_all add: D)
  also have "overwrite (replicate 0x800 0xff @ part_data ?es) 0 (?t @ [0]) =
      table_block ?es @ part_data ?es"
    using assms(5) by (simp add: overwrite_def table_block_def Let_def)
  finally show ?thesis .
qed

text \<open>Everything up to the partitions writes fixed bytes.\<close>

lemma generate_factory_image_parts:
  assumes "terminated_parts parts" "vendor_fits info"
    and "n = total_size (live_parts parts)" "malloc_ok env (0x1814 + n)"
  shows "generate_factory_image env info parts =
     cbind (put_partitions (replicate (0x800 + n) 0xff) (di_partitions info) parts) (\<lambda>buffer.
       put_md5 env (be32 (of_nat (0x1814 + n)) @ replicate 16 0xff @
         vendor_block (di_vendor info) @ buffer) 0x04 0x14 (of_nat (0x1800 + n)))"
proof -
  let ?f = "replicate 16 (0xff :: byte)" and ?V = "vendor_block (di_vendor info)"
  let ?head = "be32 (of_nat (0x1814 + n)) @ ?f"
  have V: "length ?V = 0x1000" using assms(2) by (rule length_vendor_block)
  have img1: "put32 (replicate (0x1814 + n) 0xff) 0 (of_nat (0x1814 + n)) =
      Inr (be32 (of_nat (0x1814 + n)) @ ?f @ replicate (0x1000 + (0x800 + n)) 0xff)"
  proof -
    have "replicate (0x1814 + n) (0xff :: byte) = replicate 4 0xff @ ?f @ replicate (0x1000 + (0x800 + n)) 0xff"
      by (simp flip: replicate_add)
    then show ?thesis
      by (simp add: put32_def overwrite_def)
  qed
  have img2: "put_vendor (be32 (of_nat (0x1814 + n)) @ ?f @ replicate (0x1000 + (0x800 + n)) 0xff)
      (di_vendor info) = Inr (?head @ ?V @ replicate (0x800 + n) 0xff)"
    using assms(2) by (subst put_vendor_ok) simp_all
  have img3: "drop 0x1014 (?head @ ?V @ replicate (0x800 + n) 0xff) = replicate (0x800 + n) 0xff"
      "take 0x1014 (?head @ ?V @ replicate (0x800 + n) 0xff) = ?head @ ?V"
    using V by simp_all
  have len: "0x1814 + n - 0x14 = 0x1800 + n" by simp
  show ?thesis
    unfolding generate_factory_image_def Let_def sum_sizes_eq [OF assms(1)] assms(3) [symmetric]
      cbind_simps img1 img2 img3 len
    using assms(4) by simp
qed

lemma generate_factory_image_ok:
  assumes "malloc_ok env (0x1814 + total_size (live_parts parts))"
    and "terminated_flash (di_partitions info)" "terminated_parts parts" "live_parts parts \<noteq> []"
    and "\<forall>p \<in> set (live_parts parts). wf_part p \<and>
      room_in (live_flash (di_partitions info)) (the (ip_name p)) (ip_size p)"
    and "length (image_text 0x800 (live_parts parts)) < 0x800"
    and "vendor_fits info" "0x1814 + total_size (live_parts parts) < 2 ^ 32"
  shows "generate_factory_image env info parts = Inr (factory_image info (live_parts parts))"
proof -
  let ?es = "live_parts parts" and ?n = "total_size (live_parts parts)"
  let ?V = "vendor_block (di_vendor info)" and ?B = "factory_body info (live_parts parts)"
  let ?head = "be32 (of_nat (0x1814 + ?n)) @ replicate 16 (0xff :: byte)"
  have B: "length ?B = 0x1800 + ?n"
    using length_vendor_block [OF assms(7)] assms(5,6)
    by (simp add: factory_body_def length_table_block length_part_data)
  have parts: "put_partitions (replicate (0x800 + ?n) 0xff) (di_partitions info) parts =
      Inr (table_block ?es @ part_data ?es)"
    by (rule put_partitions_fresh [OF assms(2-6)])
  have len: "unat (of_nat (0x1800 + ?n) :: u32) = 0x1800 + ?n"
    using assms(8) by (simp only: unat_of_nat) simp
  have "generate_factory_image env info parts =
      put_md5 env (?head @ ?B) 0x04 0x14 (of_nat (0x1800 + ?n))"
    using generate_factory_image_parts [OF assms(3,7) refl assms(1)] parts
    by (simp add: factory_body_def)
  also have "\<dots> =
      mem_write (?head @ ?B) 4 (md5_digest (md5_salt @ take (0x1800 + ?n) (drop 0x14 (?head @ ?B))))"
    by (subst put_md5_eq, unfold len) (simp_all add: B)
  also have "drop 0x14 (?head @ ?B) = ?B" by simp
  also have "take (0x1800 + ?n) ?B = ?B" using B by simp
  also have "mem_write (?head @ ?B) 4 (md5_digest (md5_salt @ ?B)) = Inr (factory_image info ?es)"
    using B by (simp add: overwrite_def factory_image_def)
  finally show ?thesis .
qed

text \<open>A partition the layout does not know ends the program, after the ones before it.\<close>

lemma put_partitions_loop_prefix:
  assumes "terminated_flash fl"
    and "\<forall>p \<in> set xs. ip_name p \<noteq> None \<and> wf_part p \<and>
      room_in (live_flash fl) (the (ip_name p)) (ip_size p)"
    and "base + total_size xs \<le> length buffer"
    and "pt + length (image_text base xs) < 0x800" "0x800 \<le> base"
  shows "\<exists>buffer'. length buffer' = length buffer \<and>
     put_partitions_loop fl buffer pt base (xs @ ys) =
     put_partitions_loop fl buffer' (pt + length (image_text base xs)) (base + total_size xs) ys"
  using assms
proof (induction xs arbitrary: buffer pt base)
  case Nil
  then show ?case by auto
next
  case (Cons p xs)
  obtain n where n: "ip_name p = Some n" using Cons.prems(2) by auto
  let ?l = "image_line n (of_nat base) (of_nat (ip_size p))"
  let ?b1 = "overwrite buffer base (ip_data p)"
  let ?b2 = "overwrite ?b1 pt (?l @ [0])"
  have d: "length (ip_data p) = ip_size p" using Cons.prems(2) by (simp add: wf_part_def)
  have fits: "base + ip_size p + total_size xs \<le> length buffer"
      "pt + length ?l + length (image_text (base + ip_size p) xs) < 0x800"
    using Cons.prems(3,4) n by simp_all
  obtain fp where fp: "find_flash fl n = Inr (Some fp)" "ip_size p \<le> unat (fp_size fp)"
    using Cons.prems(1,2) n room_in_lookup [of "live_flash fl" n "ip_size p"]
    by (auto simp: find_flash_eq)
  have snp: "snprintf_at ?b1 pt (0x800 - pt) ?l = Inr ?b2"
    using fits Cons.prems(5) d by (intro snprintf_at_fits) (simp_all add: length_overwrite)
  have "\<not> 0x800 - Suc pt < length ?l" using fits(2) by linarith
  then have "put_partitions_loop fl buffer pt base ((p # xs) @ ys) =
      put_partitions_loop fl ?b2 (pt + length ?l) (base + ip_size p) (xs @ ys)"
    using n fp snp d fits(1) by (simp add: Let_def)
  moreover have "length ?b2 = length buffer"
    using fits Cons.prems(5) d by (simp add: length_overwrite)
  moreover obtain b where "length b = length ?b2"
      "put_partitions_loop fl ?b2 (pt + length ?l) (base + ip_size p) (xs @ ys) =
       put_partitions_loop fl b (pt + length ?l + length (image_text (base + ip_size p) xs))
         (base + ip_size p + total_size xs) ys"
    using Cons.IH [of "base + ip_size p" ?b2 "pt + length ?l"] Cons.prems(1,2,5) fits calculation(2)
    by auto
  ultimately show ?case using n by (intro exI [of _ b]) (simp add: add.assoc)
qed

lemma generate_factory_image_unknown:
  assumes "terminated_flash (di_partitions info)" "terminated_parts (xs @ p # ys)"
    and "\<forall>q \<in> set xs. ip_name q \<noteq> None \<and> wf_part q \<and>
      room_in (live_flash (di_partitions info)) (the (ip_name q)) (ip_size q)"
    and "length (image_text 0x800 xs) < 0x800" "vendor_fits info"
    and "\<forall>n. malloc_ok env n"
    and "ip_name p = Some n" "flash_lookup (live_flash (di_partitions info)) n = None"
  shows "generate_factory_image env info (xs @ p # ys) = Inl AssertFail"
proof -
  let ?n = "total_size (live_parts (xs @ p # ys))"
  have "total_size zs \<le> total_size (live_parts (zs @ p # ys))"
    if "\<forall>q \<in> set zs. ip_name q \<noteq> None" for zs
    using that by (induction zs) auto
  then have "total_size xs \<le> ?n" using assms(3) by blast
  then obtain b where "put_partitions_loop (di_partitions info) (replicate (0x800 + ?n) 0xff) 0 0x800
      (xs @ p # ys) = put_partitions_loop (di_partitions info) b
        (length (image_text 0x800 xs)) (0x800 + total_size xs) (p # ys)"
    using put_partitions_loop_prefix [OF assms(1,3), where base = "0x800" and
        buffer = "replicate (0x800 + ?n) 0xff" and pt = "0" and ys = "p # ys"] assms(4) by auto
  then have "put_partitions (replicate (0x800 + ?n) 0xff) (di_partitions info) (xs @ p # ys) =
      Inl AssertFail"
    using assms(1,7,8) by (simp add: put_partitions_def find_flash_eq)
  then show ?thesis
    using generate_factory_image_parts [OF assms(2,5) refl, of env] assms(6) by simp
qed

text \<open>What a factory image that was made has passed.\<close>

lemma generate_factory_image_checked:
  assumes "generate_factory_image env info parts = Inr img" "malloc_ok env (0x1814 + total_size (live_parts parts))"
    and "terminated_flash (di_partitions info)" "terminated_parts parts" "vendor_fits info"
  shows "(\<forall>p \<in> set (live_parts parts).
       room_in (live_flash (di_partitions info)) (the (ip_name p)) (ip_size p)) \<and>
     length (image_text 0x800 (live_parts parts)) < 0x800"
proof -
  obtain b where b: "put_partitions (replicate (0x800 + total_size (live_parts parts)) 0xff)
      (di_partitions info) parts = Inr b"
    using assms(1) generate_factory_image_parts [OF assms(4,5) refl assms(2)]
    by (auto simp: cbind_Inr_iff)
  then show ?thesis
    using put_partitions_loop_checks [OF assms(3) b [unfolded put_partitions_def]] by simp
qed

section \<open>The sysupgrade image\<close>

definition image_lookup :: "image_partition_entry list \<Rightarrow> cstr \<Rightarrow> image_partition_entry option" where
  "image_lookup ps n = find (\<lambda>p. ip_name p = Some n) ps"

text \<open>
  Where the image partition of a flash partition goes in an image whose first byte is flash
  address \<open>first\<close>, and the offsets all of them cover.
\<close>

definition place :: "u32 \<Rightarrow> flash_partition_entry \<Rightarrow> nat" where
  "place first fp = unat (fp_base fp) - unat first"

definition image_for :: "image_partition_entry list \<Rightarrow> flash_partition_entry \<Rightarrow> image_partition_entry option" where
  "image_for parts fp = image_lookup parts (the (fp_name fp))"

definition covered :: "image_partition_entry list \<Rightarrow> u32 \<Rightarrow> flash_partition_entry list \<Rightarrow> nat set" where
  "covered parts first fps =
     (\<Union>fp \<in> set fps. case image_for parts fp of
        None \<Rightarrow> {} | Some p \<Rightarrow> {place first fp ..< place first fp + ip_size p})"

lemma find_image_eq:
  "terminated_parts ps \<Longrightarrow> find_image ps n = Inr (image_lookup (live_parts ps) n)"
  by (induction ps n rule: find_image.induct)
    (auto simp: image_lookup_def split: option.splits)

text \<open>A flash partition that can take its image partition, inside an image of \<open>len\<close> bytes.\<close>

definition accepts :: "image_partition_entry list \<Rightarrow> u32 \<Rightarrow> nat \<Rightarrow> flash_partition_entry \<Rightarrow> bool" where
  "accepts parts first len fp \<longleftrightarrow>
     fp_name fp \<noteq> None \<and> first \<le> fp_base fp \<and>
     (\<forall>p. image_for parts fp = Some p \<longrightarrow>
        wf_part p \<and> ip_size p \<le> unat (fp_size fp) \<and> place first fp + ip_size p \<le> len)"

lemma covered_Cons:
  "covered parts first (fp # fps) =
     (case image_for parts fp of
        None \<Rightarrow> {} | Some p \<Rightarrow> {place first fp ..< place first fp + ip_size p}) \<union> covered parts first fps"
  by (simp add: covered_def)

lemma covered_after:
  assumes "flash_ordered (fp # fps)" "\<forall>q \<in> set fps. accepts parts first len q"
    and "first \<le> fp_base fp" "k \<in> covered parts first fps"
  shows "place first fp + unat (fp_size fp) \<le> k"
proof -
  obtain q p where q: "q \<in> set fps" "image_for parts q = Some p" "place first q \<le> k"
    using assms(4) by (auto simp: covered_def split: option.splits)
  have "unat (fp_base fp) + unat (fp_size fp) \<le> unat (fp_base q)"
    using flash_ordered_head [OF assms(1) q(1)] .
  then show ?thesis
    using q(3) assms(3) by (simp add: place_def word_le_nat_alt)
qed

lemma sysupgrade_copy_step:
  assumes "terminated_parts parts" "accepts (live_parts parts) first (length img) fp"
  shows "sysupgrade_copy parts first img (fp # fps) =
     sysupgrade_copy parts first
       (case image_for (live_parts parts) fp of
          None \<Rightarrow> img | Some p \<Rightarrow> overwrite img (place first fp) (ip_data p)) fps"
proof -
  obtain n where n: "fp_name fp = Some n" using assms(2) by (auto simp: accepts_def)
  then show ?thesis
    using assms
    by (cases "image_for (live_parts parts) fp")
      (auto simp: image_for_def accepts_def find_image_eq wf_part_def place_def)
qed

text \<open>
  In an ordered layout the copies do not touch each other: each image partition reads back
  whole, and the bytes no copy covers keep what they held.
\<close>

lemma sysupgrade_copy_ok:
  assumes "terminated_parts parts" "flash_ordered fps"
    and "\<forall>fp \<in> set fps. accepts (live_parts parts) first (length img) fp"
  shows "\<exists>img'. sysupgrade_copy parts first img fps = Inr img' \<and> length img' = length img \<and>
     (\<forall>fp \<in> set fps. \<forall>p. image_for (live_parts parts) fp = Some p \<longrightarrow>
        take (ip_size p) (drop (place first fp) img') = ip_data p) \<and>
     (\<forall>k < length img. k \<notin> covered (live_parts parts) first fps \<longrightarrow> img' ! k = img ! k)"
  using assms
proof (induction fps arbitrary: img)
  case Nil
  then show ?case by simp
next
  case (Cons fp fps)
  let ?live = "live_parts parts"
  define img1 where "img1 = (case image_for ?live fp of
      None \<Rightarrow> img | Some p \<Rightarrow> overwrite img (place first fp) (ip_data p))"
  have fp: "accepts ?live first (length img) fp" using Cons.prems(3) by simp
  have len1: "length img1 = length img"
    using fp by (auto simp: img1_def accepts_def wf_part_def length_overwrite split: option.splits)
  obtain img' where img': "sysupgrade_copy parts first img1 fps = Inr img'" "length img' = length img"
    and reads: "\<And>q p. q \<in> set fps \<Longrightarrow> image_for ?live q = Some p \<Longrightarrow>
        take (ip_size p) (drop (place first q) img') = ip_data p"
    and keeps: "\<And>k. k < length img \<Longrightarrow> k \<notin> covered ?live first fps \<Longrightarrow> img' ! k = img1 ! k"
    using Cons.IH [of img1] Cons.prems len1 flash_ordered_Cons by auto
  have head: "take (ip_size p) (drop (place first fp) img') = ip_data p"
    if p: "image_for ?live fp = Some p" for p
  proof (rule nth_equalityI)
    have fits: "length (ip_data p) = ip_size p" "ip_size p \<le> unat (fp_size fp)"
        "place first fp + ip_size p \<le> length img"
      using fp p by (simp_all add: accepts_def wf_part_def)
    then show "length (take (ip_size p) (drop (place first fp) img')) = length (ip_data p)"
      using img'(2) by simp
    fix j assume "j < length (take (ip_size p) (drop (place first fp) img'))"
    then have j: "j < ip_size p" by simp
    then have "place first fp + j \<notin> covered ?live first fps"
      using covered_after [OF Cons.prems(2), of ?live first "length img" "place first fp + j"]
        Cons.prems(3) fits(2) by (auto simp: accepts_def)
    then have "img' ! (place first fp + j) = img1 ! (place first fp + j)"
      using keeps j fits by simp
    also have "\<dots> = ip_data p ! j"
      using p j fits by (simp add: img1_def nth_overwrite)
    finally show "take (ip_size p) (drop (place first fp) img') ! j = ip_data p ! j"
      using j fits img'(2) by simp
  qed
  have rest: "img' ! k = img ! k"
    if k: "k < length img" "k \<notin> covered ?live first (fp # fps)" for k
  proof -
    have "img' ! k = img1 ! k" using keeps k by (simp add: covered_Cons)
    also have "\<dots> = img ! k"
      using k fp by (auto simp: img1_def covered_Cons nth_overwrite accepts_def wf_part_def
          split: option.splits)
    finally show ?thesis .
  qed
  have "sysupgrade_copy parts first img (fp # fps) = Inr img'"
    using sysupgrade_copy_step [OF Cons.prems(1) fp, of fps] img'(1) by (simp add: img1_def)
  moreover have "\<forall>q \<in> set (fp # fps). \<forall>p. image_for ?live q = Some p \<longrightarrow>
        take (ip_size p) (drop (place first q) img') = ip_data p"
    using head reads by auto
  ultimately show ?case using img'(2) rest by blast
qed

lemma sysupgrade_range_skip:
  "\<forall>p \<in> set xs. fp_name p \<notin> {None, Some f, Some l} \<Longrightarrow>
     sysupgrade_range f l i acc (xs @ ys) = sysupgrade_range f l (i + length xs) acc ys"
  by (induction xs arbitrary: i) auto

lemma terminated_flash_split:
  assumes "terminated_flash ps"
  obtains e rest where "ps = live_flash ps @ e # rest" "fp_name e = None"
proof -
  have "dropWhile (\<lambda>p. fp_name p \<noteq> None) ps \<noteq> []"
    using assms by (simp add: terminated_flash_def)
  then obtain e rest where e: "dropWhile (\<lambda>p. fp_name p \<noteq> None) ps = e # rest"
    by (cases "dropWhile (\<lambda>p. fp_name p \<noteq> None) ps") auto
  moreover from e have "fp_name e = None"
    by (metis (mono_tags, lifting) hd_dropWhile list.discI list.sel(1))
  moreover have "ps = live_flash ps @ dropWhile (\<lambda>p. fp_name p \<noteq> None) ps"
    by (simp add: live_flash_def)
  ultimately show thesis using that by metis
qed

text \<open>The range from the first to the last partition, when both occur once and in this order.\<close>

lemma sysupgrade_range_eq:
  assumes "terminated_flash ps" "live_flash ps = before @ f # mid @ l # after"
    and "distinct (map fp_name (live_flash ps))" "fp_name f = Some fn" "fp_name l = Some ln"
  shows "sysupgrade_range fn ln 0 (None, None) ps =
     Inr (Some (length before), Some (Suc (length before + length mid)))"
proof -
  obtain e rest where ps: "ps = (before @ f # mid @ l # after) @ e # rest" "fp_name e = None"
    using terminated_flash_split [OF assms(1)] assms(2) by metis
  have ne: "fn \<noteq> ln" using assms(2-5) by auto
  have named: "\<forall>p \<in> set (live_flash ps). fp_name p \<noteq> None"
    by (auto simp: live_flash_def dest: set_takeWhileD)
  have "Some fn \<notin> fp_name ` set (before @ mid @ after)" "Some ln \<notin> fp_name ` set (before @ mid @ after)"
    using assms(2-5) by auto
  then have distinct: "\<And>p. p \<in> set (before @ mid @ after) \<Longrightarrow> fp_name p \<noteq> Some fn \<and> fp_name p \<noteq> Some ln"
    by (metis imageI)
  have other: "\<forall>p \<in> set before. fp_name p \<notin> {None, Some fn, Some ln}"
      "\<forall>p \<in> set mid. fp_name p \<notin> {None, Some fn, Some ln}"
      "\<forall>p \<in> set after. fp_name p \<notin> {None, Some fn, Some ln}"
    using named distinct by (auto simp: assms(2))
  have "ps = before @ f # mid @ l # after @ e # rest" using ps(1) by simp
  then show ?thesis
    using ne assms(4,5) ps(2) other by (simp add: sysupgrade_range_skip)
qed

lemma map_nth_range:
  "map (\<lambda>i. (before @ xs @ rest) ! i) [length before..<length before + length xs] = xs"
proof (rule nth_equalityI)
  show "length (map (\<lambda>i. (before @ xs @ rest) ! i) [length before..<length before + length xs]) = length xs"
    by simp
  fix i assume "i < length (map (\<lambda>i. (before @ xs @ rest) ! i) [length before..<length before + length xs])"
  then show "map (\<lambda>i. (before @ xs @ rest) ! i) [length before..<length before + length xs] ! i = xs ! i"
    by (simp add: nth_append)
qed

lemma flash_ordered_append: "flash_ordered (xs @ ys) \<Longrightarrow> flash_ordered ys"
  by (induction xs) (auto dest: flash_ordered_Cons)

lemma flash_ordered_prefix: "flash_ordered (xs @ ys) \<Longrightarrow> flash_ordered xs"
proof (induction xs rule: flash_ordered.induct)
  case (2 p)
  show ?case
  proof (cases ys)
    case (Cons q qs)
    then have "unat (fp_base p) + unat (fp_size p) \<le> unat (fp_base q)" using 2 by simp
    moreover have "unat (fp_base q) < 2 ^ 32" using unsigned_less [of "fp_base q"] by simp
    ultimately show ?thesis by simp
  qed (use 2 in simp)
qed auto

definition sysupgrade_len :: "flash_partition_entry \<Rightarrow> flash_partition_entry \<Rightarrow> image_partition_entry \<Rightarrow> nat" where
  "sysupgrade_len f l pl = unat (fp_base l) - unat (fp_base f) + ip_size pl"

lemma accepts_in_range:
  assumes "flash_ordered (f # mid @ [l])" "q \<in> set (f # mid @ [l])"
    and "\<forall>q \<in> set (f # mid @ [l]). fp_name q \<noteq> None"
    and "image_for parts l = Some pl"
    and "\<forall>q p. q \<in> set (f # mid @ [l]) \<longrightarrow> image_for parts q = Some p \<longrightarrow>
      wf_part p \<and> ip_size p \<le> unat (fp_size q)"
  shows "accepts parts (fp_base f) (sysupgrade_len f l pl) q"
proof -
  have first: "fp_base f \<le> fp_base r" if "r \<in> set (f # mid @ [l])" for r
    using flash_ordered_head [OF assms(1), of r] that by (auto simp: word_le_nat_alt)
  have before_l: "unat (fp_base r) + unat (fp_size r) \<le> unat (fp_base l)" if mem: "r \<in> set (f # mid)" for r
  proof -
    obtain xs ys where r: "f # mid = xs @ r # ys" using split_list [OF mem] by blast
    then have "flash_ordered (r # ys @ [l])"
      using assms(1) flash_ordered_append [of xs "r # ys @ [l]"] by (metis append_Cons append_assoc)
    then show ?thesis using flash_ordered_head [of r "ys @ [l]" l] by simp
  qed
  show ?thesis
  proof (cases "q \<in> set (f # mid)")
    case True
    have "place (fp_base f) q + ip_size p \<le> sysupgrade_len f l pl"
      if "ip_size p \<le> unat (fp_size q)" for p :: image_partition_entry
      using before_l [OF True] first [OF assms(2)] that
      by (simp add: place_def sysupgrade_len_def word_le_nat_alt)
    then show ?thesis
      using assms(2,3,5) first [OF assms(2)] unfolding accepts_def by blast
  next
    case False
    then have "q = l" using assms(2) by auto
    then show ?thesis
      using assms(2-5) first [of l] by (auto simp: accepts_def place_def sysupgrade_len_def)
  qed
qed

lemma generate_sysupgrade_image_ok:
  assumes layout: "terminated_flash (di_partitions info)"
      "live_flash (di_partitions info) = before @ f # mid @ l # after"
      "distinct (map fp_name (live_flash (di_partitions info)))"
      "flash_ordered (live_flash (di_partitions info))"
      "fp_name f = Some (di_first info)" "fp_name l = Some (di_last info)"
    and parts: "terminated_parts parts" "image_for (live_parts parts) l = Some pl"
      "\<forall>q p. q \<in> set (f # mid @ [l]) \<longrightarrow> image_for (live_parts parts) q = Some p \<longrightarrow>
        wf_part p \<and> ip_size p \<le> unat (fp_size q)"
    and mem: "malloc_ok env (sysupgrade_len f l pl)"
  shows "\<exists>img. generate_sysupgrade_image env info parts = Inr img \<and>
     length img = sysupgrade_len f l pl \<and>
     (\<forall>q \<in> set (f # mid @ [l]). \<forall>p. image_for (live_parts parts) q = Some p \<longrightarrow>
        take (ip_size p) (drop (place (fp_base f) q) img) = ip_data p) \<and>
     (\<forall>k < length img. k \<notin> covered (live_parts parts) (fp_base f) (f # mid @ [l]) \<longrightarrow> img ! k = 0xff)"
proof -
  let ?live = "live_parts parts" and ?range = "f # mid @ [l]" and ?len = "sysupgrade_len f l pl"
  obtain e rest where ps: "di_partitions info = live_flash (di_partitions info) @ e # rest"
    using terminated_flash_split [OF layout(1)] by metis
  then have ps: "di_partitions info = before @ ?range @ (after @ e # rest)"
    unfolding layout(2) by simp
  have ordered: "flash_ordered ?range"
    using layout(4) flash_ordered_append [of before "?range @ after"]
      flash_ordered_prefix [of ?range after] by (simp add: layout(2))
  have named: "\<forall>q \<in> set ?range. fp_name q \<noteq> None"
  proof -
    have "\<forall>p \<in> set (live_flash (di_partitions info)). fp_name p \<noteq> None"
      by (auto simp: live_flash_def dest: set_takeWhileD)
    then show ?thesis by (simp add: layout(2))
  qed
  have nth: "di_partitions info ! length before = f"
      "di_partitions info ! Suc (length before + length mid) = l"
    unfolding ps by (simp_all add: nth_append)
  have "unat (fp_base f) \<le> unat (fp_base l)"
    using flash_ordered_head [OF ordered, of l] by simp
  then have len: "unat (fp_base l - fp_base f) + ip_size pl = ?len"
    by (simp add: sysupgrade_len_def unat_sub word_le_nat_alt)
  have last: "find_image parts (di_last info) = Inr (Some pl)"
    using parts(1,2) layout(6) by (simp add: find_image_eq image_for_def)
  have range: "map ((!) (di_partitions info)) [length before..<Suc (Suc (length before + length mid))] = ?range"
    using map_nth_range [of before ?range "after @ e # rest"] unfolding ps by simp
  have "generate_sysupgrade_image env info parts =
      sysupgrade_copy parts (fp_base f) (replicate ?len 0xff) ?range"
    using sysupgrade_range_eq [OF layout(1-3,5,6)] last nth len mem range
    by (simp add: generate_sysupgrade_image_def Let_def del: upt_Suc)
  moreover have "\<forall>q \<in> set ?range. accepts ?live (fp_base f) (length (replicate ?len (0xff :: byte))) q"
    using accepts_in_range [OF ordered _ named parts(2,3)] by simp
  then obtain img where "sysupgrade_copy parts (fp_base f) (replicate ?len 0xff) ?range = Inr img"
      "length img = ?len"
      "\<forall>q \<in> set ?range. \<forall>p. image_for ?live q = Some p \<longrightarrow>
        take (ip_size p) (drop (place (fp_base f) q) img) = ip_data p"
      "\<forall>k < ?len. k \<notin> covered ?live (fp_base f) ?range \<longrightarrow> img ! k = replicate ?len 0xff ! k"
    using sysupgrade_copy_ok [OF parts(1) ordered, of "fp_base f" "replicate ?len 0xff"] by auto
  ultimately show ?thesis by auto
qed

section \<open>How long the tables get\<close>

lemma length_hex_string: "n < 16 ^ k \<Longrightarrow> 0 < k \<Longrightarrow> length (hex_string n) \<le> k"
proof (induction n arbitrary: k rule: hex_string.induct)
  case (1 n)
  show ?case
  proof (cases "n < 16")
    case True
    with "1.prems" show ?thesis by (subst hex_string.simps) simp
  next
    case False
    then have "1 < k" using "1.prems" by (cases "k = 1") auto
    then obtain k' where k: "k = Suc k'" "0 < k'" by (cases k) auto
    then have "n div 16 < 16 ^ k'" using "1.prems" by (simp add: div_less_iff_less_mult mult.commute)
    then have "length (hex_string (n div 16)) \<le> k'" using "1.IH" False k by simp
    then show ?thesis using False k by (subst hex_string.simps) simp
  qed
qed

lemma length_fmt_05x: "length (fmt_05x v) \<le> 8"
proof -
  have "unat v < 16 ^ 8" using unsigned_less [of v] by simp
  then have "length (hex_string (unat v)) \<le> 8" by (rule length_hex_string) simp
  then show ?thesis by (simp add: fmt_05x_def Let_def)
qed

lemma length_image_line: "length (image_line n b s) \<le> length n + 44"
  using length_fmt_05x [of b] length_fmt_05x [of s] by (simp add: image_line_def)

lemma length_flash_line: "length (flash_line n b s) \<le> length n + 43"
  using length_fmt_05x [of b] length_fmt_05x [of s] by (simp add: flash_line_def)

lemma length_image_text:
  assumes "\<forall>p \<in> set ps. length (the (ip_name p)) \<le> m"
  shows "length (image_text base ps) \<le> (m + 44) * length ps"
  using assms
proof (induction base ps rule: image_text.induct)
  case (2 base p ps)
  have "length (image_line (the (ip_name p)) (of_nat base) (of_nat (ip_size p))) \<le> m + 44"
    using length_image_line [of "the (ip_name p)"] 2(2) by (meson add_le_mono le_refl le_trans list.set_intros(1))
  moreover have "length (image_text (base + ip_size p) ps) \<le> (m + 44) * length ps"
    using 2 by simp
  ultimately show ?case by simp
qed simp

lemma length_flash_text:
  assumes "\<forall>p \<in> set ps. length (the (fp_name p)) \<le> m"
  shows "length (flash_text ps) \<le> (m + 43) * length ps"
  using assms
proof (induction ps)
  case (Cons p ps)
  have "length (flash_entry_line p) \<le> m + 43"
    using length_flash_line [of "the (fp_name p)"] Cons(2) unfolding flash_entry_line_def
    by (meson add_le_mono le_refl le_trans list.set_intros(1))
  moreover have "length (flash_text ps) \<le> (m + 43) * length ps" using Cons by simp
  ultimately show ?case by simp
qed simp

lemma board_names_short:
  assumes "b \<in> set board_table"
  shows "\<forall>p \<in> set (live_flash (di_partitions b)). length (the (fp_name p)) \<le> 20"
  using boards_layout_ok [OF assms] by (simp add: layout_ok_def Let_def)

text \<open>32 names of at most 20 characters leave room in the 2048 bytes of the table.\<close>

lemma board_table_fits:
  assumes "b \<in> set board_table"
  shows "4 + length (flash_text (live_flash (di_partitions b))) < 0x800"
    and "terminated_flash (di_partitions b)" "live_flash (di_partitions b) \<noteq> []"
proof -
  have ok: "layout_ok b" "generated_parts_fit b"
    using assms by (simp_all add: boards_layout_ok boards_generated_fit)
  let ?ps = "live_flash (di_partitions b)"
  have "length (flash_text ?ps) \<le> (20 + 43) * length ?ps"
    using board_names_short [OF assms] by (rule length_flash_text)
  also have "\<dots> \<le> 63 * 32"
    using ok(1) by (simp add: layout_ok_def Let_def MAX_PARTITIONS_def)
  finally show "4 + length (flash_text ?ps) < 0x800" by simp
  show "terminated_flash (di_partitions b)" using ok(1) by (simp add: layout_ok_def Let_def)
  show "?ps \<noteq> []"
    using ok(2) by (auto simp: generated_parts_fit_def Let_def room_in_def flash_lookup_def)
qed

section \<open>The partitions of a build\<close>

definition table_part :: "device_info \<Rightarrow> image_partition_entry" where
  "table_part info = \<lparr>ip_name = Some (bytes ''partition-table''), ip_size = 0x800,
     ip_data = partition_table_bytes (live_flash (di_partitions info))\<rparr>"

definition version_bytes :: "c_env \<Rightarrow> int \<Rightarrow> u32 \<Rightarrow> device_info \<Rightarrow> byte list" where
  "version_bytes env sde rv info =
     (case di_soft_ver info of
        Some s \<Rightarrow> version_string_bytes s
      | None \<Rightarrow> soft_version_bytes (localtime env (the (build_time env sde))) rv)"

definition version_part :: "c_env \<Rightarrow> int \<Rightarrow> u32 \<Rightarrow> device_info \<Rightarrow> image_partition_entry" where
  "version_part env sde rv info = \<lparr>ip_name = Some (bytes ''soft-version''),
     ip_size = length (version_bytes env sde rv info), ip_data = version_bytes env sde rv info\<rparr>"

definition support_part :: "device_info \<Rightarrow> image_partition_entry" where
  "support_part info = \<lparr>ip_name = Some (bytes ''support-list''),
     ip_size = length (di_support_list info) + 9, ip_data = support_list_bytes info\<rparr>"

definition os_part :: "c_env \<Rightarrow> byte list \<Rightarrow> byte list \<Rightarrow> image_partition_entry" where
  "os_part env c1 c2 = \<lparr>ip_name = Some (bytes ''os-image''),
     ip_size = align_64k (length c1) + length c2,
     ip_data = c1 @ c2 @ map (fresh env ''os-image'')
       [length c1 + length c2..<align_64k (length c1) + length c2]\<rparr>"

definition extra_kind :: "device_info \<Rightarrow> byte list option" where
  "extra_kind info =
     (if id_is info ''ARCHER-C25-V1'' \<or> id_is info ''ARCHER-C60-V2'' \<or> id_is info ''TLWR1043NV5''
      then Some extra_para_a
      else if id_is info ''ARCHER-C7-V4'' \<or> id_is info ''ARCHER-C7-V5'' then Some extra_para_b
      else None)"

definition extra_part :: "device_info \<Rightarrow> image_partition_entry" where
  "extra_part info =
     (case extra_kind info of
        None \<Rightarrow> image_null
      | Some d \<Rightarrow> \<lparr>ip_name = Some (bytes ''extra-para''), ip_size = 11, ip_data = d\<rparr>)"

definition identity_text :: "byte list" where
  "identity_text = bytes ''here should be lots of high quality randomness'' @ [0]"

definition sysconf_text :: "byte list" where
  "sysconf_text = bytes ''here should be a file system? no idea what to use this for yet'' @ [0]"

text \<open>The array \<open>mdat\<close> is written in its first 47 bytes only: the rest is stack garbage.\<close>

definition identity_part :: "c_env \<Rightarrow> image_partition_entry" where
  "identity_part env = \<lparr>ip_name = Some (bytes ''identity''), ip_size = 4096,
     ip_data = identity_text @ map (fresh env ''mdat'') [length identity_text..<4096]\<rparr>"

definition sysconf_part :: "image_partition_entry" where
  "sysconf_part = \<lparr>ip_name = Some (bytes ''sysconf''), ip_size = 1024,
     ip_data = sysconf_text @ replicate (1024 - length sysconf_text) 0\<rparr>"

definition fs_part :: "byte list \<Rightarrow> image_partition_entry" where
  "fs_part g = \<lparr>ip_name = Some (bytes ''file-system''), ip_size = length g, ip_data = g\<rparr>"

text \<open>What a build needs of its environment: memory, the clock, three readable files.\<close>

definition build_env :: "c_env \<Rightarrow> cstr \<Rightarrow> byte list \<Rightarrow> cstr \<Rightarrow> byte list \<Rightarrow> cstr \<Rightarrow> byte list \<Rightarrow> bool" where
  "build_env env k ck r cr g cg \<longleftrightarrow>
     (\<forall>n. malloc_ok env n) \<and> clock env \<noteq> None \<and>
     file_read env k ck \<and> file_read env r cr \<and> file_read env g cg \<and> length ck + 0xffff < 2 ^ 64"

definition all_parts ::
  "c_env \<Rightarrow> int \<Rightarrow> u32 \<Rightarrow> device_info \<Rightarrow> byte list \<Rightarrow> byte list \<Rightarrow> byte list \<Rightarrow> image_partition_entry list"
where
  "all_parts env sde rv info ck cr cg =
     [table_part info, version_part env sde rv info, support_part info, os_part env ck cr,
      extra_part info, identity_part env, sysconf_part, fs_part cg, image_null]"

lemma length_version_bytes:
  "length (version_bytes env sde rv info) =
     (case di_soft_ver info of None \<Rightarrow> 21 | Some s \<Rightarrow> length s + 10)"
  by (simp add: version_bytes_def version_string_bytes_def split: option.splits)

lemma drop_uninit: "drop k (uninit env name m) = map (fresh env name) [k..<m]"
  by (simp add: uninit_def drop_map)

lemma identity_text_length: "length identity_text = 47"
  by (simp add: identity_text_def)

lemma sysconf_text_length: "length sysconf_text = 63"
  by (simp add: sysconf_text_def)

lemma identity_part_ok:
  assumes "\<forall>n. malloc_ok env n"
  shows "put_data env ''identity'' (overwrite (uninit env ''mdat'' 4096) 0 identity_text) 4096 =
     Inr (identity_part env)"
proof -
  have "overwrite (uninit env ''mdat'' 4096) 0 identity_text =
      identity_text @ map (fresh env ''mdat'') [47..<4096]"
    by (simp add: overwrite_def drop_uninit identity_text_length del: upt_rec_numeral)
  moreover have "length (identity_text @ map (fresh env ''mdat'') [47..<4096]) = 4096"
    by (simp add: identity_text_length del: upt_rec_numeral)
  ultimately show ?thesis
    using assms by (simp add: put_data_eq identity_part_def identity_text_length del: upt_rec_numeral)
qed

lemma sysconf_part_ok:
  assumes "\<forall>n. malloc_ok env n" "length m = 4096"
  shows "put_data env ''sysconf'' (overwrite (overwrite m 0 (replicate 1024 0)) 0 sysconf_text) 1024 =
     Inr sysconf_part"
proof -
  have "overwrite (overwrite m 0 (replicate 1024 0)) 0 sysconf_text =
      sysconf_text @ replicate (1024 - 63) 0 @ drop 1024 m"
    by (simp add: overwrite_def sysconf_text_length)
  moreover have "length (sysconf_text @ replicate (1024 - 63) 0 @ drop 1024 m) = 4096"
    using assms(2) by (simp add: sysconf_text_length)
  ultimately show ?thesis
    using assms by (simp add: put_data_eq sysconf_part_def sysconf_text_length)
qed

lemma extra_part_ok:
  assumes "\<forall>n. malloc_ok env n"
  shows "(if id_is info ''ARCHER-C25-V1'' \<or> id_is info ''ARCHER-C60-V2'' \<or> id_is info ''TLWR1043NV5''
      then put_data env ''extra-para'' extra_para_a 11
      else if id_is info ''ARCHER-C7-V4'' \<or> id_is info ''ARCHER-C7-V5''
      then put_data env ''extra-para'' extra_para_b 11
      else Inr image_null) = Inr (extra_part info)"
proof -
  have "length extra_para_a = 11" "length extra_para_b = 11"
    by (simp_all add: extra_para_a_def extra_para_b_def)
  then show ?thesis
    using assms by (simp add: put_data_eq extra_part_def extra_kind_def)
qed

lemma board_version_short:
  assumes "b \<in> set board_table" "di_soft_ver b = Some s"
  shows "length s + 1 < 2 ^ 32"
proof -
  have room: "room_in (live_flash (di_partitions b)) (bytes ''soft-version'') (length s + 10)"
    using boards_generated_fit [OF assms(1)] assms(2) by (simp add: generated_parts_fit_def Let_def)
  then obtain p where "flash_lookup (live_flash (di_partitions b)) (bytes ''soft-version'') = Some p"
    by (auto simp: room_in_def split: option.splits)
  with room have "length s + 10 \<le> unat (fp_size p)" by (simp add: room_in_def)
  moreover have "unat (fp_size p) < 2 ^ 32" using unsigned_less [of "fp_size p"] by simp
  ultimately show ?thesis by linarith
qed

lemma build_parts_ok:
  assumes "build_env env k ck r cr g cg" "info \<in> set board_table"
  shows "build_parts env sde k r g rv info = Inr (all_parts env sde rv info ck cr cg)"
proof -
  note env = assms(1) [unfolded build_env_def]
  have mem: "\<forall>n. malloc_ok env n" using env by simp
  have p0: "make_partition_table env (di_partitions info) = Inr (table_part info)"
    using board_table_fits [OF assms(2)] mem by (simp add: make_partition_table_ok table_part_def)
  have p1: "(case di_soft_ver info of Some s \<Rightarrow> make_soft_version_from_string env s
             | None \<Rightarrow> make_soft_version env sde rv) = Inr (version_part env sde rv info)"
    using env board_version_short [OF assms(2)]
    by (auto simp: make_soft_version_eq make_soft_version_from_string_eq version_part_def
        length_version_bytes build_time_def version_bytes_def version_string_bytes_def
        split: option.splits)
  have p2: "make_support_list env info = Inr (support_part info)"
    using mem by (simp add: make_support_list_eq support_part_def)
  have p3: "read_file_split2 env ''os-image'' k r False = Inr (os_part env ck cr)"
    using env align_64k_bounds(1) [of "length ck"] mem
    by (subst read_file_split2_plain_iff) (auto simp: os_part_def)
  have p7: "read_file env ''file-system'' g False = Inr (fs_part cg)"
    using env mem by (subst read_file_plain_iff) (auto simp: fs_part_def)
  have len: "length (overwrite (uninit env ''mdat'' 4096) 0 identity_text) = 4096"
    by (simp add: length_overwrite identity_text_length)
  let ?m1 = "overwrite (uninit env ''mdat'' 4096) 0 identity_text"
  have m: "mem_write (uninit env ''mdat'' 4096) 0 identity_text = Inr ?m1"
      "mem_write ?m1 0 (replicate 1024 0) = Inr (overwrite ?m1 0 (replicate 1024 0))"
      "mem_write (overwrite ?m1 0 (replicate 1024 0)) 0 sysconf_text =
        Inr (overwrite (overwrite ?m1 0 (replicate 1024 0)) 0 sysconf_text)"
    by (simp_all add: len length_overwrite identity_text_length sysconf_text_length)
  have arr: "(replicate 9 image_null)[0 := a0, 1 := a1, 2 := a2, 3 := a3, 4 := a4, 5 := a5, 6 := a6, 7 := a7]
      = [a0, a1, a2, a3, a4, a5, a6, a7, image_null]" for a0 a1 a2 a3 a4 a5 a6 a7
    by (simp add: numeral_nat)
  show ?thesis
    unfolding build_parts_def Let_def identity_text_def [symmetric] sysconf_text_def [symmetric]
      p0 p1 p2 p3 extra_part_ok [OF mem] m identity_part_ok [OF mem] sysconf_part_ok [OF mem len] p7
      cbind_simps arr all_parts_def
    by (rule refl)
qed

end
