(* ===== verification/Build.thy ===== *)
theory Build
  imports Image
begin

text \<open>
  What \<open>build_image\<close> of tools/tplink-safeloader/tplink-safeloader.c produces for the boards
  of its table, in both image formats: the partitions a build has, which of them reach the image,
  and the builds the program's own assertions end.
\<close>

section \<open>What a build produces\<close>

text \<open>The partitions before \<open>extra-para\<close>, which every build has.\<close>

definition core_parts ::
  "c_env \<Rightarrow> int \<Rightarrow> u32 \<Rightarrow> device_info \<Rightarrow> byte list \<Rightarrow> byte list \<Rightarrow> image_partition_entry list" where
  "core_parts env sde rv info ck cr =
     [table_part info, version_part env sde rv info, support_part info, os_part env ck cr]"

definition full_parts ::
  "c_env \<Rightarrow> int \<Rightarrow> u32 \<Rightarrow> device_info \<Rightarrow> byte list \<Rightarrow> byte list \<Rightarrow> byte list \<Rightarrow> image_partition_entry list"
where
  "full_parts env sde rv info ck cr cg =
     core_parts env sde rv info ck cr @ [extra_part info, identity_part env, sysconf_part, fs_part cg]"

lemma part_names [simp]:
  "ip_name (table_part info) = Some (bytes ''partition-table'')"
  "ip_name (version_part env sde rv info) = Some (bytes ''soft-version'')"
  "ip_name (support_part info) = Some (bytes ''support-list'')"
  "ip_name (os_part env ck cr) = Some (bytes ''os-image'')"
  "ip_name (identity_part env) = Some (bytes ''identity'')"
  "ip_name sysconf_part = Some (bytes ''sysconf'')"
  "ip_name (fs_part cg) = Some (bytes ''file-system'')"
  by (simp_all add: table_part_def version_part_def support_part_def os_part_def
      identity_part_def sysconf_part_def fs_part_def)

lemma extra_part_name:
  "ip_name (extra_part info) = (if extra_kind info = None then None else Some (bytes ''extra-para''))"
  by (auto simp: extra_part_def split: option.splits)

lemma extra_kind_length: "extra_kind info = Some d \<Longrightarrow> length d = 11"
  by (auto simp: extra_kind_def extra_para_a_def extra_para_b_def split: if_splits)

lemma all_parts_split:
  "all_parts env sde rv info ck cr cg =
     core_parts env sde rv info ck cr @
     [extra_part info, identity_part env, sysconf_part, fs_part cg, image_null]"
  by (simp add: all_parts_def core_parts_def)

lemma terminated_all_parts: "terminated_parts (all_parts env sde rv info ck cr cg)"
  by (simp add: terminated_parts_def all_parts_def)

text \<open>
  A board without \<open>extra-para\<close> leaves \<open>parts[4]\<close> null, which ends the array for every
  loop over it: the identity, sysconf and file-system partitions behind it are never seen.
\<close>

lemma live_all_parts:
  "live_parts (all_parts env sde rv info ck cr cg) =
     (if extra_kind info = None then core_parts env sde rv info ck cr
      else full_parts env sde rv info ck cr cg)"
  by (simp add: all_parts_def core_parts_def full_parts_def extra_part_name)

lemma parts_wf:
  "wf_part (version_part env sde rv info)" "wf_part (support_part info)"
  "wf_part (extra_part info)" "wf_part (identity_part env)" "wf_part sysconf_part" "wf_part (fs_part cg)"
proof -
  show "wf_part (version_part env sde rv info)" "wf_part (support_part info)" "wf_part (fs_part cg)"
    by (simp_all add: wf_part_def version_part_def support_part_def support_list_bytes_def fs_part_def)
  show "wf_part sysconf_part"
    by (simp add: wf_part_def sysconf_part_def sysconf_text_length)
  show "wf_part (identity_part env)"
    by (simp add: wf_part_def identity_part_def identity_text_length del: upt_rec_numeral)
  show "wf_part (extra_part info)"
    using extra_kind_length by (auto simp: wf_part_def extra_part_def split: option.splits)
qed

lemma table_part_wf: "b \<in> set board_table \<Longrightarrow> wf_part (table_part b)"
  using board_table_fits(1) [of b]
  by (simp add: wf_part_def table_part_def partition_table_bytes_def)

lemma os_part_wf: "length ck + 0xffff < 2 ^ 64 \<Longrightarrow> wf_part (os_part env ck cr)"
  using align_64k_bounds(1) [of "length ck"] by (simp add: wf_part_def os_part_def)

text \<open>A file the layout has room for.\<close>

definition os_fits :: "device_info \<Rightarrow> byte list \<Rightarrow> byte list \<Rightarrow> bool" where
  "os_fits info ck cr \<longleftrightarrow>
     room_in (live_flash (di_partitions info)) (bytes ''os-image'') (align_64k (length ck) + length cr)"

definition part_fits :: "device_info \<Rightarrow> image_partition_entry \<Rightarrow> bool" where
  "part_fits info p \<longleftrightarrow> ip_name p \<noteq> None \<and> wf_part p \<and>
     room_in (live_flash (di_partitions info)) (the (ip_name p)) (ip_size p)"

lemma core_parts_fit:
  assumes "info \<in> set board_table" "os_fits info ck cr" "length ck + 0xffff < 2 ^ 64"
  shows "\<forall>p \<in> set (core_parts env sde rv info ck cr). part_fits info p"
proof -
  have "generated_parts_fit info" using assms(1) by (rule boards_generated_fit)
  moreover have "ip_size (version_part env sde rv info) =
      (case di_soft_ver info of None \<Rightarrow> 21 | Some s \<Rightarrow> length s + 10)"
    by (simp add: version_part_def length_version_bytes)
  moreover have "ip_size (table_part info) = 0x800"
      "ip_size (support_part info) = length (di_support_list info) + 9"
      "ip_size (os_part env ck cr) = align_64k (length ck) + length cr"
    by (simp_all add: table_part_def support_part_def os_part_def)
  ultimately show ?thesis
    using assms(2) table_part_wf [OF assms(1)] os_part_wf [OF assms(3)] parts_wf
    by (simp add: core_parts_def part_fits_def generated_parts_fit_def Let_def os_fits_def)
qed

lemma core_parts_ne: "core_parts env sde rv info ck cr \<noteq> []"
  by (simp add: core_parts_def)

lemma core_text_short: "length (image_text base (core_parts env sde rv info ck cr)) < 0x800"
proof -
  have "\<forall>p \<in> set (core_parts env sde rv info ck cr). length (the (ip_name p)) \<le> 20"
    by (simp add: core_parts_def)
  then have "length (image_text base (core_parts env sde rv info ck cr)) \<le> (20 + 44) * 4"
    using length_image_text [of "core_parts env sde rv info ck cr" 20 base]
    by (simp add: core_parts_def)
  then show ?thesis by simp
qed

lemma full_text_short:
  assumes "extra_kind info \<noteq> None"
  shows "length (image_text base (full_parts env sde rv info ck cr cg)) < 0x800"
proof -
  have "\<forall>p \<in> set (full_parts env sde rv info ck cr cg). length (the (ip_name p)) \<le> 20"
    by (simp add: assms full_parts_def core_parts_def extra_part_name)
  then have "length (image_text base (full_parts env sde rv info ck cr cg)) \<le> (20 + 44) * 8"
    using length_image_text [of "full_parts env sde rv info ck cr cg" 20 base]
    by (simp add: full_parts_def core_parts_def)
  then show ?thesis by simp
qed

lemma build_image_factory:
  assumes "build_env env k ck r cr g cg" "info \<in> set board_table"
  shows "build_image env sde out k r g rv j False info =
     cbind (generate_factory_image env info (all_parts env sde rv info ck cr cg)) (\<lambda>img.
       cbind (error_if (\<not> can_write env out) ''unable to open output file'') (\<lambda>_.
       cbind (error_if (img = []) ''unable to write output file'') (\<lambda>_. Inr img)))"
  by (simp add: build_image_def build_parts_ok [OF assms])

lemma build_image_sysupgrade:
  assumes "build_env env k ck r cr g cg" "info \<in> set board_table"
  shows "build_image env sde out k r g rv j True info =
     cbind (generate_sysupgrade_image env info (all_parts env sde rv info ck cr cg)) (\<lambda>img.
       cbind (error_if (\<not> can_write env out) ''unable to open output file'') (\<lambda>_.
       cbind (error_if (img = []) ''unable to write output file'') (\<lambda>_. Inr img)))"
  by (simp add: build_image_def build_parts_ok [OF assms])

lemma factory_image_ne: "factory_image info es \<noteq> []"
  by (simp add: factory_image_def be32_def)

lemma generate_factory_of_fitting:
  assumes "\<forall>p \<in> set (live_parts parts). part_fits info p" "live_parts parts \<noteq> []"
    and "terminated_parts parts" "terminated_flash (di_partitions info)"
    and "length (image_text 0x800 (live_parts parts)) < 0x800" "vendor_fits info"
    and "0x1814 + total_size (live_parts parts) < 2 ^ 32" "\<forall>n. malloc_ok env n"
  shows "generate_factory_image env info parts = Inr (factory_image info (live_parts parts))"
  using assms by (intro generate_factory_image_ok) (simp_all add: part_fits_def)

lemma board_vendor_fits: "b \<in> set board_table \<Longrightarrow> vendor_fits b"
  by (auto simp: board_table_def board_defs vendor_fits_def crlf_def lf_def)

text \<open>The build for a board without \<open>extra-para\<close>: the four partitions only.\<close>

lemma build_factory_core:
  assumes "build_env env k ck r cr g cg" "info \<in> set board_table" "extra_kind info = None"
    and "os_fits info ck cr" "can_write env out"
    and "0x1814 + total_size (core_parts env sde rv info ck cr) < 2 ^ 32"
  shows "build_image env sde out k r g rv j False info =
     Inr (factory_image info (core_parts env sde rv info ck cr))"
proof -
  have env: "\<forall>n. malloc_ok env n" "length ck + 0xffff < 2 ^ 64"
    using assms(1) by (simp_all add: build_env_def)
  have live: "live_parts (all_parts env sde rv info ck cr cg) = core_parts env sde rv info ck cr"
    using assms(3) by (simp add: live_all_parts)
  have "generate_factory_image env info (all_parts env sde rv info ck cr cg) =
      Inr (factory_image info (live_parts (all_parts env sde rv info ck cr cg)))"
    using core_parts_fit [OF assms(2,4) env(2)] assms(6) env(1) board_table_fits(2) [OF assms(2)]
    by (intro generate_factory_of_fitting)
      (simp_all add: live core_parts_ne core_text_short terminated_all_parts board_vendor_fits assms(2))
  then show ?thesis
    using assms(5) by (simp add: build_image_factory [OF assms(1,2)] live factory_image_ne)
qed

section \<open>The boards with an extra-para partition\<close>

definition extra_boards :: "device_info list" where
  "extra_boards = [board_ARCHER_C25_V1, board_ARCHER_C60_V2, board_ARCHER_C7_V4, board_ARCHER_C7_V5,
     board_TLWR1043NV5]"

lemma extra_kinds:
  "filter (\<lambda>b. extra_kind b \<noteq> None) board_table = extra_boards"
  by (simp add: board_table_def extra_boards_def extra_kind_def id_is_def board_ids
      strcasecmp_eq_def bytes_def to_lower_def)

lemma extra_kind_iff: "b \<in> set board_table \<Longrightarrow> extra_kind b \<noteq> None \<longleftrightarrow> b \<in> set extra_boards"
  unfolding extra_kinds [symmetric] by simp

lemma extra_boards_subset: "b \<in> set extra_boards \<Longrightarrow> b \<in> set board_table"
  unfolding extra_kinds [symmetric] by simp

text \<open>The flash partition the data goes to, and the adjacent pair a sysupgrade covers.\<close>

definition extra_room :: "device_info \<Rightarrow> bool" where
  "extra_room b \<longleftrightarrow> room_in (live_flash (di_partitions b)) (bytes ''extra-para'') 11"

definition knows :: "device_info \<Rightarrow> string \<Rightarrow> bool" where
  "knows b n \<longleftrightarrow> flash_lookup (live_flash (di_partitions b)) (bytes n) \<noteq> None"

lemma extra_boards_room: "b \<in> set extra_boards \<Longrightarrow> extra_room b"
  by (auto simp: extra_boards_def extra_room_def board_defs room_in_def flash_lookup_def inj_bytes)

lemma extra_boards_identity:
  "b \<in> set extra_boards \<Longrightarrow> b \<noteq> board_ARCHER_C7_V4 \<Longrightarrow> \<not> knows b ''identity''"
  by (auto simp: extra_boards_def knows_def board_ARCHER_C25_V1_def board_ARCHER_C60_V2_def
      board_ARCHER_C7_V5_def board_TLWR1043NV5_def flash_lookup_def inj_bytes)

lemma c7v4_rooms:
  "room_in (live_flash (di_partitions board_ARCHER_C7_V4)) (bytes ''identity'') 4096"
  "room_in (live_flash (di_partitions board_ARCHER_C7_V4)) (bytes ''sysconf'') 1024"
  by (simp_all add: board_ARCHER_C7_V4_def room_in_def flash_lookup_def inj_bytes)

definition fs_fits :: "device_info \<Rightarrow> byte list \<Rightarrow> bool" where
  "fs_fits info cg \<longleftrightarrow>
     room_in (live_flash (di_partitions info)) (bytes ''file-system'') (length cg)"

lemma extra_part_fits:
  assumes "b \<in> set extra_boards"
  shows "part_fits b (extra_part b)"
proof -
  have "extra_kind b \<noteq> None" using assms extra_boards_subset extra_kind_iff by blast
  then obtain d where "extra_kind b = Some d" by blast
  then show ?thesis
    using extra_boards_room [OF assms] parts_wf(3) [of b]
    by (simp add: part_fits_def extra_part_def extra_room_def)
qed

lemma full_parts_ne: "full_parts env sde rv info ck cr cg \<noteq> []"
  by (simp add: full_parts_def)

text \<open>Four of them have no \<open>identity\<close> partition: a factory build ends in the assertion.\<close>

lemma build_factory_aborts:
  assumes "build_env env k ck r cr g cg" "info \<in> set extra_boards" "info \<noteq> board_ARCHER_C7_V4"
    and "os_fits info ck cr"
  shows "build_image env sde out k r g rv j False info = Inl AssertFail"
proof -
  let ?xs = "core_parts env sde rv info ck cr @ [extra_part info]"
  let ?ys = "[sysconf_part, fs_part cg, image_null]"
  have tab: "info \<in> set board_table" using assms(2) by (rule extra_boards_subset)
  then have kind: "extra_kind info \<noteq> None" using assms(2) extra_kind_iff by blast
  have env: "\<forall>n. malloc_ok env n" "length ck + 0xffff < 2 ^ 64"
    using assms(1) by (simp_all add: build_env_def)
  have split: "all_parts env sde rv info ck cr cg = ?xs @ identity_part env # ?ys"
    by (simp add: all_parts_def core_parts_def)
  have "\<forall>p \<in> set ?xs. length (the (ip_name p)) \<le> 20"
    by (simp add: kind core_parts_def extra_part_name)
  then have "length (image_text 0x800 ?xs) \<le> (20 + 44) * 5"
    using length_image_text [of ?xs 20 "0x800"] by (simp add: core_parts_def)
  then have "length (image_text 0x800 ?xs) < 0x800" by simp
  moreover have "\<forall>p \<in> set ?xs. part_fits info p"
    using core_parts_fit [OF tab assms(4) env(2)] extra_part_fits [OF assms(2)] by simp
  ultimately have "generate_factory_image env info (?xs @ identity_part env # ?ys) = Inl AssertFail"
    using terminated_all_parts [of env sde rv info ck cr cg] env(1) board_table_fits(2) [OF tab]
      board_vendor_fits [OF tab] extra_boards_identity [OF assms(2,3)]
    by (intro generate_factory_image_unknown [of info ?xs "identity_part env" ?ys env "bytes ''identity''"])
      (simp_all add: split part_fits_def knows_def)
  then show ?thesis
    by (simp add: build_image_factory [OF assms(1) tab] split)
qed

text \<open>The one board the partitions are made for gets all eight of them.\<close>

lemma build_factory_c7v4:
  assumes "build_env env k ck r cr g cg" "info = board_ARCHER_C7_V4"
    and "os_fits info ck cr" "fs_fits info cg" "can_write env out"
    and "0x1814 + total_size (full_parts env sde rv info ck cr cg) < 2 ^ 32"
  shows "build_image env sde out k r g rv j False info =
     Inr (factory_image info (full_parts env sde rv info ck cr cg))"
proof -
  have ex: "info \<in> set extra_boards" using assms(2) by (simp add: extra_boards_def)
  then have tab: "info \<in> set board_table" by (rule extra_boards_subset)
  then have kind: "extra_kind info \<noteq> None" using ex extra_kind_iff by blast
  have env: "\<forall>n. malloc_ok env n" "length ck + 0xffff < 2 ^ 64"
    using assms(1) by (simp_all add: build_env_def)
  have live: "live_parts (all_parts env sde rv info ck cr cg) = full_parts env sde rv info ck cr cg"
    by (simp add: kind live_all_parts)
  have "part_fits info (identity_part env)" "part_fits info sysconf_part" "part_fits info (fs_part cg)"
    using c7v4_rooms assms(2,4) parts_wf
    by (simp_all add: part_fits_def fs_fits_def) (simp_all add: identity_part_def sysconf_part_def fs_part_def)
  then have "\<forall>p \<in> set (full_parts env sde rv info ck cr cg). part_fits info p"
    using core_parts_fit [OF tab assms(3) env(2)] extra_part_fits [OF ex] by (simp add: full_parts_def)
  then have "generate_factory_image env info (all_parts env sde rv info ck cr cg) =
      Inr (factory_image info (live_parts (all_parts env sde rv info ck cr cg)))"
    using assms(6) env(1) board_table_fits(2) [OF tab]
    by (intro generate_factory_of_fitting)
      (simp_all add: live full_text_short kind terminated_all_parts board_vendor_fits tab full_parts_ne)
  then show ?thesis
    using assms(5) by (simp add: build_image_factory [OF assms(1) tab] live factory_image_ne)
qed

section \<open>Sysupgrade builds\<close>

lemma terminated_flash_simps [simp]:
  "\<not> terminated_flash []"
  "terminated_flash (p # ps) \<longleftrightarrow> fp_name p = None \<or> terminated_flash ps"
  by (auto simp: terminated_flash_def)

lemma sysupgrade_range_defined:
  "terminated_flash ps \<Longrightarrow> \<exists>r. sysupgrade_range f l i acc ps = Inr r"
proof (induction ps arbitrary: i acc)
  case (Cons p ps)
  then show ?case by (cases "fp_name p") simp_all
qed simp

lemma generate_sysupgrade_image_no_last:
  assumes "terminated_flash (di_partitions info)" "terminated_parts parts"
    and "image_lookup (live_parts parts) (di_last info) = None"
  shows "generate_sysupgrade_image env info parts = Inl AssertFail"
proof -
  obtain a b where r: "sysupgrade_range (di_first info) (di_last info) 0 (None, None)
      (di_partitions info) = Inr (a, b)"
    using sysupgrade_range_defined [OF assms(1)] by (metis surj_pair)
  have l: "find_image parts (di_last info) = Inr None"
    using assms(2,3) by (simp add: find_image_eq)
  show ?thesis
    by (cases "a \<noteq> None \<and> b \<noteq> None"; cases "the a < the b")
      (simp_all add: generate_sysupgrade_image_def r l c_assert_def)
qed

text \<open>
  Without \<open>extra-para\<close> the file-system partition is lost behind the null, and a board
  whose sysupgrade image ends with it cannot be built in that format.
\<close>

lemma build_sysupgrade_aborts:
  assumes "build_env env k ck r cr g cg" "info \<in> set board_table" "extra_kind info = None"
    and "di_last info = bytes ''file-system''"
  shows "build_image env sde out k r g rv j True info = Inl AssertFail"
proof -
  have "image_lookup (live_parts (all_parts env sde rv info ck cr cg)) (di_last info) = None"
    using assms(3,4) by (simp add: live_all_parts core_parts_def image_lookup_def inj_bytes)
  then have "generate_sysupgrade_image env info (all_parts env sde rv info ck cr cg) = Inl AssertFail"
    using board_table_fits(2) [OF assms(2)] terminated_all_parts
    by (intro generate_sysupgrade_image_no_last)
  then show ?thesis by (simp add: build_image_sysupgrade [OF assms(1,2)])
qed

text \<open>Two adjacent flash partitions: the data of the first, fill, the data of the second.\<close>

lemma sysupgrade_adjacent:
  assumes layout: "terminated_flash (di_partitions info)"
      "live_flash (di_partitions info) = before @ f # l # after"
      "distinct (map fp_name (live_flash (di_partitions info)))"
      "flash_ordered (live_flash (di_partitions info))"
      "fp_name f = Some (di_first info)" "fp_name l = Some (di_last info)"
    and parts: "terminated_parts parts" "image_for (live_parts parts) f = Some pf"
      "image_for (live_parts parts) l = Some pl"
      "wf_part pf" "ip_size pf \<le> unat (fp_size f)" "wf_part pl" "ip_size pl \<le> unat (fp_size l)"
    and mem: "\<forall>n. malloc_ok env n"
  shows "generate_sysupgrade_image env info parts =
     Inr (ip_data pf @ replicate (place (fp_base f) l - ip_size pf) 0xff @ ip_data pl)"
proof -
  let ?live = "live_parts parts" and ?o = "place (fp_base f) l"
  obtain img where img: "generate_sysupgrade_image env info parts = Inr img"
      "length img = sysupgrade_len f l pl"
      "take (ip_size pf) (drop (place (fp_base f) f) img) = ip_data pf"
      "take (ip_size pl) (drop ?o img) = ip_data pl"
      "\<forall>k < length img. k \<notin> covered ?live (fp_base f) [f, l] \<longrightarrow> img ! k = 0xff"
  proof -
    have "live_flash (di_partitions info) = before @ f # [] @ l # after" using layout(2) by simp
    moreover have "\<forall>q p. q \<in> set (f # [] @ [l]) \<longrightarrow> image_for ?live q = Some p \<longrightarrow>
        wf_part p \<and> ip_size p \<le> unat (fp_size q)"
      using parts by auto
    ultimately obtain img where "generate_sysupgrade_image env info parts = Inr img"
        "length img = sysupgrade_len f l pl"
        "\<forall>q \<in> set (f # [] @ [l]). \<forall>p. image_for ?live q = Some p \<longrightarrow>
          take (ip_size p) (drop (place (fp_base f) q) img) = ip_data p"
        "\<forall>k < length img. k \<notin> covered ?live (fp_base f) (f # [] @ [l]) \<longrightarrow> img ! k = 0xff"
      using generate_sysupgrade_image_ok [OF layout(1) _ layout(3-6) parts(1,3)] mem by blast
    then show thesis using that parts(2,3) by simp
  qed
  have len: "length img = ?o + ip_size pl"
    using img(2) by (simp add: sysupgrade_len_def place_def)
  have "flash_ordered (f # l # after)"
    using layout(4) flash_ordered_append [of before "f # l # after"] unfolding layout(2) by blast
  then have o: "ip_size pf \<le> ?o" "place (fp_base f) f = 0"
    using parts(5) by (simp_all add: place_def, linarith)
  have cov: "covered ?live (fp_base f) [f, l] = {0..<ip_size pf} \<union> {?o..<?o + ip_size pl}"
    using parts(2,3) o(2) by (simp add: covered_def)
  have gap: "take (?o - ip_size pf) (drop (ip_size pf) img) = replicate (?o - ip_size pf) 0xff"
  proof (rule nth_equalityI)
    fix i assume "i < length (take (?o - ip_size pf) (drop (ip_size pf) img))"
    then have i: "i < ?o - ip_size pf" "ip_size pf + i < length img"
      by (simp_all, linarith)
    then have "ip_size pf + i \<notin> covered ?live (fp_base f) [f, l]"
      unfolding cov by auto
    then show "take (?o - ip_size pf) (drop (ip_size pf) img) ! i = replicate (?o - ip_size pf) 0xff ! i"
      using i img(5) by simp
  qed (use len o in simp)
  have "img = take (ip_size pf) img @ take (?o - ip_size pf) (drop (ip_size pf) img) @ drop ?o img"
    using o(1) by (metis append_take_drop_id drop_drop le_add_diff_inverse2)
  also have "drop ?o img = ip_data pl" using img(4) len by simp
  also have "take (ip_size pf) img = ip_data pf" using img(3) o(2) by simp
  finally have "img = ip_data pf @ replicate (?o - ip_size pf) 0xff @ ip_data pl"
    unfolding gap .
  then show ?thesis using img(1) by simp
qed

definition adjacent_pair :: "device_info \<Rightarrow> flash_partition_entry \<Rightarrow> flash_partition_entry \<Rightarrow> bool" where
  "adjacent_pair b f l \<longleftrightarrow>
     (\<exists>before after. live_flash (di_partitions b) = before @ f # l # after) \<and>
     fp_name f = Some (di_first b) \<and> fp_name l = Some (di_last b) \<and>
     di_first b = bytes ''os-image'' \<and> di_last b = bytes ''file-system''"

lemma adjacent_pairI:
  assumes "drop n (live_flash (di_partitions b)) = f # l # after"
    and "fp_name f = Some (di_first b)" "fp_name l = Some (di_last b)"
    and "di_first b = bytes ''os-image''" "di_last b = bytes ''file-system''"
  shows "adjacent_pair b f l"
  unfolding adjacent_pair_def using assms
  by (metis append_take_drop_id)

lemma extra_boards_adjacent:
  assumes "b \<in> set extra_boards"
  shows "\<exists>f l. adjacent_pair b f l"
proof -
  have "adjacent_pair board_ARCHER_C25_V1
      (flash_part ''os-image'' 0x30000 0x180000) (flash_part ''file-system'' 0x1b0000 0x620000)"
    by (rule adjacent_pairI [where n = 2]) (simp_all add: board_ARCHER_C25_V1_def)
  moreover have "adjacent_pair board_ARCHER_C60_V2
      (flash_part ''os-image'' 0x30000 0x180000) (flash_part ''file-system'' 0x1b0000 0x620000)"
    by (rule adjacent_pairI [where n = 6]) (simp_all add: board_ARCHER_C60_V2_def)
  moreover have "adjacent_pair board_ARCHER_C7_V4
      (flash_part ''os-image'' 0x40000 0xa00000) (flash_part ''file-system'' 0xa40000 0x4c0000)"
    by (rule adjacent_pairI [where n = 2]) (simp_all add: board_ARCHER_C7_V4_def)
  moreover have "adjacent_pair board_ARCHER_C7_V5
      (flash_part ''os-image'' 0xc0000 0x180000) (flash_part ''file-system'' 0x240000 0xd80000)"
    by (rule adjacent_pairI [where n = 13]) (simp_all add: board_ARCHER_C7_V5_def)
  moreover have "adjacent_pair board_TLWR1043NV5
      (flash_part ''os-image'' 0x40000 0x180000) (flash_part ''file-system'' 0x1c0000 0xd40000)"
    by (rule adjacent_pairI [where n = 2]) (simp_all add: board_TLWR1043NV5_def)
  ultimately show ?thesis using assms unfolding extra_boards_def by auto
qed

lemma flash_lookup_member:
  assumes "distinct (map fp_name ps)" "p \<in> set ps" "fp_name p = Some n"
  shows "flash_lookup ps n = Some p"
  using assms by (induction ps) (auto simp: flash_lookup_def image_iff)

text \<open>
  The sysupgrade image of a board with \<open>extra-para\<close>: os-image, fill up to the place of
  file-system, file-system.
\<close>

lemma build_sysupgrade_extra:
  assumes "build_env env k ck r cr g cg" "info \<in> set extra_boards"
    and "os_fits info ck cr" "fs_fits info cg" "can_write env out" "adjacent_pair info f l"
  shows "build_image env sde out k r g rv j True info =
     Inr (ip_data (os_part env ck cr) @
       replicate (place (fp_base f) l - ip_size (os_part env ck cr)) 0xff @ cg)"
proof -
  let ?ps = "live_flash (di_partitions info)" and ?parts = "all_parts env sde rv info ck cr cg"
  have tab: "info \<in> set board_table" using assms(2) by (rule extra_boards_subset)
  then have kind: "extra_kind info \<noteq> None" using assms(2) extra_kind_iff by blast
  have env: "\<forall>n. malloc_ok env n" "length ck + 0xffff < 2 ^ 64" "cg \<noteq> []"
    using assms(1) by (simp_all add: build_env_def file_read_def)
  obtain before after where pair: "?ps = before @ f # l # after"
      "fp_name f = Some (di_first info)" "fp_name l = Some (di_last info)"
      "di_first info = bytes ''os-image''" "di_last info = bytes ''file-system''"
    using assms(6) by (auto simp: adjacent_pair_def)
  have ok: "terminated_flash (di_partitions info)" "distinct (map fp_name ?ps)" "flash_ordered ?ps"
    using boards_layout_ok [OF tab] by (simp_all add: layout_ok_def Let_def)
  have look: "flash_lookup ?ps (bytes ''os-image'') = Some f"
      "flash_lookup ?ps (bytes ''file-system'') = Some l"
    using ok(2) pair by (simp_all add: flash_lookup_member)
  have live: "live_parts ?parts = full_parts env sde rv info ck cr cg"
    by (simp add: kind live_all_parts)
  have imgs: "image_for (live_parts ?parts) f = Some (os_part env ck cr)"
      "image_for (live_parts ?parts) l = Some (fs_part cg)"
    unfolding live full_parts_def core_parts_def
    using pair by (simp_all add: image_for_def image_lookup_def extra_part_name inj_bytes)
  have sizes: "ip_size (os_part env ck cr) \<le> unat (fp_size f)" "ip_size (fs_part cg) \<le> unat (fp_size l)"
    using assms(3,4) look by (simp_all add: os_fits_def fs_fits_def room_in_def os_part_def fs_part_def)
  have "generate_sysupgrade_image env info ?parts = Inr (ip_data (os_part env ck cr) @
      replicate (place (fp_base f) l - ip_size (os_part env ck cr)) 0xff @ ip_data (fs_part cg))"
    using sysupgrade_adjacent [OF ok(1) pair(1) ok(2,3) pair(2,3) terminated_all_parts imgs
        os_part_wf [OF env(2)] sizes(1) parts_wf(6) sizes(2) env(1)] .
  then show ?thesis
    using assms(5) env(3) by (simp add: build_image_sysupgrade [OF assms(1) tab] fs_part_def)
qed

section \<open>Properties\<close>

text \<open>
  C9 (functional): for a null-terminated list of well-formed partitions, a factory image is
  made exactly when every partition has a flash partition of its name with room for it and the
  image partition table fits its 2048 bytes, and it is then the documented format: big-endian
  length, MD5 of the salt and everything behind the digest, vendor block, table, data.
\<close>

theorem factory_image_exact:
  assumes "malloc_ok env (0x1814 + total_size (live_parts parts))"
    and "terminated_flash (di_partitions info)" "terminated_parts parts" "live_parts parts \<noteq> []"
    and "\<forall>p \<in> set (live_parts parts). wf_part p" "vendor_fits info"
    and "0x1814 + total_size (live_parts parts) < 2 ^ 32"
  shows "generate_factory_image env info parts = Inr img \<longleftrightarrow>
     (\<forall>p \<in> set (live_parts parts).
        room_in (live_flash (di_partitions info)) (the (ip_name p)) (ip_size p)) \<and>
     length (image_text 0x800 (live_parts parts)) < 0x800 \<and>
     img = factory_image info (live_parts parts)"
  using generate_factory_image_ok [OF assms(1-4) _ _ assms(6,7)] assms(5)
    generate_factory_image_checked [OF _ assms(1-3,6)]
  by (metis sum.inject(2))

definition sample_info :: device_info where
  "sample_info = \<lparr>di_id = Some (bytes ''X''), di_vendor = Some (bytes ''V''), di_support_list = [],
     di_support_trail = 0, di_soft_ver = None,
     di_partitions = [flash_part ''a'' 0x100 0x10, flash_part ''b'' 0x200 0x10, flash_null],
     di_first = bytes ''a'', di_last = bytes ''b''\<rparr>"

definition sample_part :: "string \<Rightarrow> byte list \<Rightarrow> image_partition_entry" where
  "sample_part n d = \<lparr>ip_name = Some (bytes n), ip_size = length d, ip_data = d\<rparr>"

definition sample_parts :: "image_partition_entry list" where
  "sample_parts = [sample_part ''b'' [1, 2, 3], sample_part ''a'' [4], image_null]"

lemma sample_live [simp]:
  "live_parts sample_parts = [sample_part ''b'' [1, 2, 3], sample_part ''a'' [4]]"
  "terminated_parts sample_parts"
  "live_flash (di_partitions sample_info) = [flash_part ''a'' 0x100 0x10, flash_part ''b'' 0x200 0x10]"
  "terminated_flash (di_partitions sample_info)"
  by (simp_all add: sample_parts_def sample_part_def sample_info_def live_flash_def terminated_flash_def)

lemma sample_rooms:
  "\<forall>p \<in> set (live_parts sample_parts). wf_part p \<and>
     room_in (live_flash (di_partitions sample_info)) (the (ip_name p)) (ip_size p)"
  by (simp add: sample_part_def wf_part_def room_in_def flash_lookup_def inj_bytes)

theorem factory_image_exact_witness:
  "generate_factory_image sample_env sample_info sample_parts =
     Inr (factory_image sample_info [sample_part ''b'' [1, 2, 3], sample_part ''a'' [4]])"
proof -
  have "\<forall>p \<in> set (live_parts sample_parts). length (the (ip_name p)) \<le> 20"
    by (simp add: sample_part_def)
  then have "length (image_text 0x800 (live_parts sample_parts)) \<le> (20 + 44) * 2"
    using length_image_text [of "live_parts sample_parts" 20 "0x800"] by simp
  then have "length (image_text 0x800 (live_parts sample_parts)) < 0x800" by simp
  moreover have "vendor_fits sample_info" by (simp add: vendor_fits_def sample_info_def)
  moreover have "0x1814 + total_size (live_parts sample_parts) < 2 ^ 32"
    by (simp add: sample_part_def)
  ultimately show ?thesis
    using factory_image_exact [of sample_env sample_parts sample_info
        "factory_image sample_info (live_parts sample_parts)"] sample_rooms by simp
qed

text \<open>
  C10 (functional): the sysupgrade image of a layout in flash order starts at the first
  partition of its range; every image partition of the range stands, whole, at the distance of
  its flash base from the first; every byte no partition covers is 0xff; the image ends where
  the last partition's data ends.
\<close>

theorem sysupgrade_image_layout:
  assumes "terminated_flash (di_partitions info)"
      "live_flash (di_partitions info) = before @ f # mid @ l # after"
      "distinct (map fp_name (live_flash (di_partitions info)))"
      "flash_ordered (live_flash (di_partitions info))"
      "fp_name f = Some (di_first info)" "fp_name l = Some (di_last info)"
    and "terminated_parts parts" "image_for (live_parts parts) l = Some pl"
      "\<forall>q p. q \<in> set (f # mid @ [l]) \<longrightarrow> image_for (live_parts parts) q = Some p \<longrightarrow>
        wf_part p \<and> ip_size p \<le> unat (fp_size q)"
    and "malloc_ok env (sysupgrade_len f l pl)"
  shows "\<exists>img. generate_sysupgrade_image env info parts = Inr img \<and>
     length img = unat (fp_base l) - unat (fp_base f) + ip_size pl \<and>
     (\<forall>q \<in> set (f # mid @ [l]). \<forall>p. image_for (live_parts parts) q = Some p \<longrightarrow>
        take (ip_size p) (drop (unat (fp_base q) - unat (fp_base f)) img) = ip_data p) \<and>
     (\<forall>k < length img. k \<notin> covered (live_parts parts) (fp_base f) (f # mid @ [l]) \<longrightarrow> img ! k = 0xff)"
  using generate_sysupgrade_image_ok [OF assms] by (simp only: sysupgrade_len_def place_def)

theorem sysupgrade_image_layout_witness:
  "\<exists>img. generate_sysupgrade_image sample_env sample_info sample_parts = Inr img \<and>
     length img = 0x103 \<and> take 1 img = [4] \<and> drop 0x100 img = [1, 2, 3]"
proof -
  let ?f = "flash_part ''a'' 0x100 0x10" and ?l = "flash_part ''b'' 0x200 0x10"
  let ?live = "live_parts sample_parts"
  have imgs: "image_for ?live ?f = Some (sample_part ''a'' [4])"
      "image_for ?live ?l = Some (sample_part ''b'' [1, 2, 3])"
    by (simp_all add: image_for_def image_lookup_def sample_part_def inj_bytes)
  have names: "fp_name ?f = Some (di_first sample_info)" "fp_name ?l = Some (di_last sample_info)"
    by (simp_all add: sample_info_def)
  have sizes: "\<forall>q p. q \<in> set (?f # [] @ [?l]) \<longrightarrow> image_for ?live q = Some p \<longrightarrow>
        wf_part p \<and> ip_size p \<le> unat (fp_size q)"
    using imgs by (auto simp: wf_part_def sample_part_def)
  have ord: "flash_ordered (live_flash (di_partitions sample_info))"
      "distinct (map fp_name (live_flash (di_partitions sample_info)))"
    by (simp_all add: inj_bytes)
  have live: "live_flash (di_partitions sample_info) = [] @ ?f # [] @ ?l # []" by simp
  obtain img where "generate_sysupgrade_image sample_env sample_info sample_parts = Inr img"
      "length img = 0x103" "take 1 img = [4]" "take 3 (drop 0x100 img) = [1, 2, 3]"
    using sysupgrade_image_layout [OF sample_live(4) live ord(2,1) names sample_live(2) imgs(2) sizes, of sample_env]
      imgs by (auto simp: sample_part_def)
  then show ?thesis by (intro exI [of _ img]) simp
qed

text \<open>
  C13 (functional): for every board without an extra-para partition, a factory build that
  succeeds holds the partition table, soft-version, support list and os-image only; the
  identity, sysconf and file-system partitions the build made are not in it, because the null
  name in \<open>parts[4]\<close> ends the array.
\<close>

theorem factory_build_without_extra_para:
  assumes "build_env env k ck r cr g cg" "info \<in> set board_table" "info \<notin> set extra_boards"
    and "os_fits info ck cr" "can_write env out"
    and "0x1814 + total_size (core_parts env sde rv info ck cr) < 2 ^ 32"
  shows "build_image env sde out k r g rv j False info =
     Inr (factory_image info [table_part info, version_part env sde rv info, support_part info, os_part env ck cr])"
  using build_factory_core [OF assms(1,2) _ assms(4-6)] assms(2,3) extra_kind_iff [OF assms(2)]
  by (auto simp: core_parts_def)

lemma sample_build_env:
  "build_env sample_env (bytes ''k'') [1, 2, 3] (bytes ''r'') [4, 5] (bytes ''g'') [6]"
  using sample_files by (simp add: build_env_def)

lemma sample_align: "align_64k (Suc (Suc (Suc 0))) = 0x10000"
  using align_64k_value [of "Suc (Suc (Suc 0))"] by simp

theorem factory_build_without_extra_para_witness:
  "build_image sample_env 0 (bytes ''o'') (bytes ''k'') (bytes ''r'') (bytes ''g'') 0 False False board_CPE210 =
     Inr (factory_image board_CPE210 [table_part board_CPE210, version_part sample_env 0 0 board_CPE210,
       support_part board_CPE210, os_part sample_env [1, 2, 3] [4, 5]])"
proof -
  have "board_CPE210 \<in> set board_table" by (simp add: board_table_def)
  moreover have "board_CPE210 \<notin> set extra_boards"
    using extra_kind_iff [OF calculation] by (simp add: extra_kind_def id_is_def board_ids
      strcasecmp_eq_def bytes_def to_lower_def)
  moreover have "os_fits board_CPE210 [1, 2, 3] [4, 5]"
    by (simp add: os_fits_def board_CPE210_def sample_align room_in_def flash_lookup_def inj_bytes)
  moreover have "0x1814 + total_size (core_parts sample_env 0 0 board_CPE210 [1, 2, 3] [4, 5]) < 2 ^ 32"
    by (simp add: core_parts_def table_part_def version_part_def length_version_bytes support_part_def
      os_part_def sample_align board_CPE210_def lines_with_def crlf_def)
  ultimately show ?thesis
    using factory_build_without_extra_para [OF sample_build_env] by simp
qed

text \<open>
  C11 (functional): the factory build for ARCHER-C7-V4 holds all eight partitions of the build,
  for every pair of images that fit its flash layout.
\<close>

theorem factory_build_archer_c7_v4:
  assumes "build_env env k ck r cr g cg" "info = board_ARCHER_C7_V4"
    and "align_64k (length ck) + length cr \<le> 0xa00000" "length cg \<le> 0x4c0000" "can_write env out"
  shows "build_image env sde out k r g rv j False info =
     Inr (factory_image info [table_part info, version_part env sde rv info, support_part info,
       os_part env ck cr, extra_part info, identity_part env, sysconf_part, fs_part cg])"
proof -
  have os: "os_fits info ck cr" "fs_fits info cg"
    using assms(2-4) by (simp_all add: os_fits_def fs_fits_def board_ARCHER_C7_V4_def room_in_def
        flash_lookup_def inj_bytes)
  have "ip_size (extra_part info) \<le> 11" by (simp add: extra_part_def split: option.splits)
  moreover have "ip_size (version_part env sde rv info) = 25" "ip_size (support_part info) \<le> 0x1000"
    using assms(2) by (simp_all add: version_part_def length_version_bytes support_part_def
        board_ARCHER_C7_V4_def lines_with_def lf_def)
  ultimately have "0x1814 + total_size (full_parts env sde rv info ck cr cg) < 2 ^ 32"
    using assms(3,4) by (simp add: full_parts_def core_parts_def table_part_def os_part_def
        identity_part_def sysconf_part_def fs_part_def)
  then show ?thesis
    using build_factory_c7v4 [OF assms(1,2) os assms(5)] by (simp add: full_parts_def core_parts_def)
qed

theorem factory_build_archer_c7_v4_witness:
  "\<exists>img. build_image sample_env 0 (bytes ''o'') (bytes ''k'') (bytes ''r'') (bytes ''g'') 0 False False
     board_ARCHER_C7_V4 = Inr img"
  using factory_build_archer_c7_v4 [OF sample_build_env refl, of "bytes ''o''" 0 0 False]
  by (auto simp: sample_align)

text \<open>
  C14 (error): for the other four boards with an extra-para partition, whose layouts have no
  identity partition, every factory build ends in the assertion of \<open>put_partitions\<close>.
\<close>

theorem factory_build_aborts:
  assumes "build_env env k ck r cr g cg" "os_fits info ck cr"
    and "info \<in> {board_ARCHER_C25_V1, board_ARCHER_C60_V2, board_ARCHER_C7_V5, board_TLWR1043NV5}"
  shows "build_image env sde out k r g rv j False info = Inl AssertFail"
proof -
  have id: "di_id info \<noteq> di_id board_ARCHER_C7_V4"
    using assms(3) by (auto simp: board_ids inj_bytes)
  have "info \<in> set extra_boards" using assms(3) by (auto simp: extra_boards_def)
  then show ?thesis
    using build_factory_aborts [OF assms(1) _ _ assms(2)] id by auto
qed

theorem factory_build_aborts_witness:
  "build_image sample_env 0 (bytes ''o'') (bytes ''k'') (bytes ''r'') (bytes ''g'') 0 False False
     board_ARCHER_C25_V1 = Inl AssertFail"
proof -
  have "os_fits board_ARCHER_C25_V1 [1, 2, 3] [4, 5]"
    by (simp add: os_fits_def board_ARCHER_C25_V1_def sample_align room_in_def flash_lookup_def inj_bytes)
  then show ?thesis using factory_build_aborts [OF sample_build_env] by simp
qed

text \<open>
  C12 (functional): the sysupgrade build for each of the five boards with an extra-para
  partition is the os-image data, 0xff up to the distance of the two flash bases, and the
  genesis image.
\<close>

theorem sysupgrade_build_extra_para:
  assumes "build_env env k ck r cr g cg" "info \<in> set extra_boards"
    and "os_fits info ck cr" "fs_fits info cg" "can_write env out"
  shows "\<exists>f l. adjacent_pair info f l \<and>
     build_image env sde out k r g rv j True info =
       Inr (ip_data (os_part env ck cr) @
         replicate (unat (fp_base l) - unat (fp_base f) - ip_size (os_part env ck cr)) 0xff @ cg)"
  using extra_boards_adjacent [OF assms(2)] build_sysupgrade_extra [OF assms, unfolded place_def] by blast

theorem sysupgrade_build_extra_para_witness:
  "\<exists>img. build_image sample_env 0 (bytes ''o'') (bytes ''k'') (bytes ''r'') (bytes ''g'') 0 False True
     board_ARCHER_C7_V4 = Inr img \<and> take 5 img = [1, 2, 3, 4, 5]"
proof -
  let ?b = board_ARCHER_C7_V4
  have "?b \<in> set extra_boards" by (simp add: extra_boards_def)
  moreover have "os_fits ?b [1, 2, 3] [4, 5]" "fs_fits ?b [6]"
    by (simp_all add: os_fits_def fs_fits_def board_ARCHER_C7_V4_def sample_align room_in_def
        flash_lookup_def inj_bytes)
  ultimately have "\<exists>f l. adjacent_pair ?b f l \<and>
      build_image sample_env 0 (bytes ''o'') (bytes ''k'') (bytes ''r'') (bytes ''g'') 0 False True ?b =
      Inr (ip_data (os_part sample_env [1, 2, 3] [4, 5]) @
        replicate (unat (fp_base l) - unat (fp_base f) - ip_size (os_part sample_env [1, 2, 3] [4, 5])) 0xff @ [6])"
    using sysupgrade_build_extra_para [OF sample_build_env, of ?b] by simp
  then show ?thesis by (auto simp: os_part_def sample_align simp del: upt_rec_numeral)
qed

text \<open>
  C15 (error): for every board whose sysupgrade image ends with file-system and that has no
  extra-para partition, a sysupgrade build ends in an assertion of
  \<open>generate_sysupgrade_image\<close>, whatever the files are.
\<close>

theorem sysupgrade_build_aborts:
  assumes "build_env env k ck r cr g cg" "info \<in> set board_table" "info \<notin> set extra_boards"
    and "di_last info = bytes ''file-system''"
  shows "build_image env sde out k r g rv j True info = Inl AssertFail"
  using build_sysupgrade_aborts [OF assms(1,2) _ assms(4)] assms(3) extra_kind_iff [OF assms(2)] by blast

theorem sysupgrade_build_aborts_witness:
  "build_image sample_env 0 (bytes ''o'') (bytes ''k'') (bytes ''r'') (bytes ''g'') 0 False True
     board_ARCHER_C60_V1 = Inl AssertFail"
proof -
  have "board_ARCHER_C60_V1 \<in> set board_table" by (simp add: board_table_def)
  moreover have "board_ARCHER_C60_V1 \<notin> set extra_boards"
    using extra_kind_iff [OF calculation] by (simp add: extra_kind_def id_is_def board_ids
      strcasecmp_eq_def bytes_def to_lower_def)
  moreover have "di_last board_ARCHER_C60_V1 = bytes ''file-system''"
    by (simp add: board_ARCHER_C60_V1_def)
  ultimately show ?thesis using sysupgrade_build_aborts [OF sample_build_env] by blast
qed

end
