(* ===== verification/Extract.thy ===== *)
theory Extract
  imports Build
begin

text \<open>
  Reading firmware back, in tools/tplink-safeloader/tplink-safeloader.c: the parser of the two
  partition tables, \<open>extract_firmware\<close> and \<open>convert_firmware\<close>. An open input file is
  its contents and a position, an open output file likewise; every read is preceded by an
  \<open>fseek\<close>, so only the position inside one function is part of a state.
\<close>

section \<open>The partition table parser\<close>

text \<open>The first zeroed entry of the list takes the partition; \<open>max_entries\<close> is its length.\<close>

fun add_flash_partition ::
  "c_env \<Rightarrow> flash_partition_entry list \<Rightarrow> cstr \<Rightarrow> u64 \<Rightarrow> u64 \<Rightarrow> flash_partition_entry list c" where
  "add_flash_partition env [] name base sz = Inl (ErrorExit ''No free flash part entry available.'')"
| "add_flash_partition env (e # es) name base sz =
     (if fp_name e = None \<and> fp_base e = 0 \<and> fp_size e = 0
      then cbind (defined_if (malloc_ok env (length name + 1))) (\<lambda>_.
        Inr (\<lparr>fp_name = Some name, fp_base = ucast base, fp_size = ucast sz\<rparr> # es))
      else cbind (add_flash_partition env es name base sz) (\<lambda>es'. Inr (e # es')))"

text \<open>
  \<open>strncpy\<close> of the element, at most 31 bytes, into the zeroed \<open>name[32]\<close>, which copies up to
  a zero byte and fills with zeros; the terminator behind it; the string that is in \<open>name\<close> then.
\<close>

definition element_name :: "byte list \<Rightarrow> nat \<Rightarrow> nat \<Rightarrow> cstr c" where
  "element_name buf ptr end_element =
     (let name_len = (if end_element - ptr > 31 then 31 else end_element - ptr) in
      cbind (mem_read buf ptr name_len) (\<lambda>src.
      (let copied = takeWhile (\<lambda>b. b \<noteq> 0) src in
       cbind (mem_write (replicate 32 0) 0 (copied @ replicate (name_len - length copied) 0)) (\<lambda>name.
       cbind (mem_write name name_len [0]) (\<lambda>name'.
       Inr (cstring_at name' 0))))))"

text \<open>The loop over the five elements of one line, from \<open>i\<close> on.\<close>

fun part_elements ::
  "c_env \<Rightarrow> byte list \<Rightarrow> nat \<Rightarrow> nat list \<Rightarrow> nat \<Rightarrow> cstr \<Rightarrow> u64 \<Rightarrow> flash_partition_entry list \<Rightarrow>
     (nat \<times> flash_partition_entry list) c" where
  "part_elements env buf end_part [] ptr name base entries = Inr (ptr, entries)"
| "part_elements env buf end_part (i # is) ptr name base entries =
     (if end_part \<le> ptr then Inr (ptr, entries)
      else cbind (memchr_at buf ptr 0x20 (end_part - ptr)) (\<lambda>found.
        case found of
          None \<Rightarrow> Inl (ErrorExit ''Ignoring the rest of the partition entries.'')
        | Some end_element \<Rightarrow>
            if i = 1 then
              cbind (element_name buf ptr end_element) (\<lambda>name'.
              part_elements env buf end_part is (end_element + 1) name' base entries)
            else if i = 3 then
              cbind (strtoul16_at buf ptr) (\<lambda>base'.
              part_elements env buf end_part is (end_element + 1) name base' entries)
            else if i = 4 then
              cbind (strtoul16_at buf (end_element + 1)) (\<lambda>sz.
              cbind (add_flash_partition env entries name base sz) (\<lambda>entries'.
              part_elements env buf end_part is (end_part + 1) name base entries'))
            else part_elements env buf end_part is (end_element + 1) name base entries))"

lemma element_name_inside:
  assumes "ptr + min 31 (e - ptr) \<le> length buf"
  shows "element_name buf ptr e = Inr (takeWhile (\<lambda>b. b \<noteq> 0) (take (min 31 (e - ptr)) (drop ptr buf)))"
proof -
  define n where "n = min 31 (e - ptr)"
  define w where "w = takeWhile (\<lambda>b :: byte. b \<noteq> 0) (take n (drop ptr buf))"
  have n: "(if e - ptr > 31 then 31 else e - ptr) = n" "n \<le> 31" by (simp_all add: n_def)
  have "length w \<le> length (take n (drop ptr buf))" unfolding w_def by (rule length_takeWhile_le)
  then have wl: "length w \<le> n" by simp
  have r: "mem_read buf ptr n = Inr (take n (drop ptr buf))" using assms by (simp add: mem_read_def n_def)
  have nz: "\<forall>b \<in> set w. b \<noteq> 0" unfolding w_def by (auto dest: set_takeWhileD)
  let ?c = "w @ replicate (n - length w) 0"
  have len: "length ?c = n" using wl by simp
  have w1: "mem_write (replicate 32 0) 0 ?c = Inr (?c @ replicate (32 - n) 0)"
    using len n(2) by (simp add: mem_write_def overwrite_def)
  have w2: "mem_write (?c @ replicate (32 - n) 0) n [0] = Inr (?c @ 0 # replicate (31 - n) 0)"
    using len n(2) by (simp add: mem_write_def overwrite_def)
  have z: "?c @ 0 # replicate (31 - n) 0 = w @ 0 # (replicate (n - length w) 0 @ replicate (31 - n) 0)"
    by (simp add: replicate_app_Cons_same)
  have s: "cstring_at (?c @ 0 # replicate (31 - n) 0) 0 = w"
    unfolding z using nz by (simp add: cstring_at_def takeWhile_append2)
  show ?thesis
    unfolding element_name_def Let_def n(1) r cbind_simps w_def [symmetric] w1 w2 s
    by (simp only: w_def n_def)
qed

definition part_hdr :: "nat \<Rightarrow> byte list" where
  "part_hdr ty = (if ty = 0 then bytes ''fwup-ptn'' else bytes ''partition'')"

lemma part_elements_mono:
  "part_elements env buf e is ptr name base entries = Inr (p, es) \<Longrightarrow> ptr \<le> p"
proof (induction "is" arbitrary: ptr name base entries)
  case (Cons i "is")
  show ?case
  proof (cases "e \<le> ptr")
    case False
    then obtain k where k: "memchr_at buf ptr 0x20 (e - ptr) = Inr (Some k)"
      using Cons.prems by (auto simp: cbind_Inr_iff split: option.splits)
    then have "ptr \<le> k" by (auto dest: memchr_at_SomeD memchr_bounds)
    moreover obtain q name' base' entries' where "q = k + 1 \<or> q = e + 1"
        "part_elements env buf e is q name' base' entries' = Inr (p, es)"
      using Cons.prems False k by (auto simp: cbind_Inr_iff split: if_splits)
    ultimately show ?thesis using Cons.IH [of q name' base' entries'] False by auto
  qed (use Cons.prems in simp)
qed simp

lemma part_elements_advances:
  assumes "part_elements env buf e (0 # is) ptr name base entries = Inr (p, es)" "ptr < e"
  shows "ptr < p"
proof -
  obtain k where k: "memchr_at buf ptr 0x20 (e - ptr) = Inr (Some k)"
    using assms by (auto simp: cbind_Inr_iff split: option.splits)
  then have "part_elements env buf e is (k + 1) name base entries = Inr (p, es)" "ptr \<le> k"
    using assms by (auto dest: memchr_at_SomeD memchr_bounds)
  then show ?thesis using part_elements_mono [of env buf e "is" "k + 1"] by fastforce
qed

lemma newline_after_hdr:
  assumes "take (length (part_hdr ty)) (drop ptr buf) = part_hdr ty" "memchr buf ptr 10 n = Some e"
  shows "ptr < e"
proof -
  have h: "part_hdr ty \<noteq> []" "part_hdr ty ! 0 \<noteq> 10"
    by (simp_all add: part_hdr_def bytes_def)
  have "ptr \<le> e" "e < length buf" using memchr_bounds [OF assms(2)] by simp_all
  moreover have "buf ! ptr = part_hdr ty ! 0"
  proof -
    have "ptr < length buf" using calculation by simp
    moreover have "(take (length (part_hdr ty)) (drop ptr buf)) ! 0 = drop ptr buf ! 0"
      using h(1) by (intro nth_take) simp
    ultimately show ?thesis unfolding assms(1) by simp
  qed
  moreover have "buf ! e = 10" using memchr_hit(1) [OF assms(2)] .
  ultimately show ?thesis using h(2) by (cases "ptr = e") auto
qed

text \<open>
  The outer loop. Each round moves the pointer on, because the header it starts at is not a
  newline; so the loop ends on every buffer.
\<close>

function read_parts ::
  "c_env \<Rightarrow> nat \<Rightarrow> byte list \<Rightarrow> nat \<Rightarrow> flash_partition_entry list \<Rightarrow> flash_partition_entry list c"
where
  "read_parts env ty buf ptr entries =
     (if ptr + length (part_hdr ty) < length buf then
        (case mem_read buf ptr (length (part_hdr ty)) of
           Inl e \<Rightarrow> Inl e
         | Inr h \<Rightarrow>
             if h = part_hdr ty then
               (case memchr_at buf ptr 10 (length buf - ptr) of
                  Inl e \<Rightarrow> Inl e
                | Inr None \<Rightarrow> Inr entries
                | Inr (Some end_part) \<Rightarrow>
                    (case part_elements env buf end_part [0, 1, 2, 3, 4] ptr [] 0 entries of
                       Inl e \<Rightarrow> Inl e
                     | Inr (ptr', entries') \<Rightarrow> read_parts env ty buf ptr' entries'))
             else Inr entries)
      else Inr entries)"
  by pat_completeness auto
termination
proof (relation "measure (\<lambda>(env, ty, buf, ptr, entries). length buf - ptr)")
  fix env ty buf ptr entries h found end_part r ptr' and entries' :: "flash_partition_entry list"
  assume a: "ptr + length (part_hdr ty) < length buf"
    and h: "mem_read buf ptr (length (part_hdr ty)) = Inr h" "h = part_hdr ty"
    and e: "memchr_at buf ptr 10 (length buf - ptr) = Inr found" "found = Some end_part"
    and r: "part_elements env buf end_part [0, 1, 2, 3, 4] ptr [] 0 entries = Inr r" "(ptr', entries') = r"
  have "take (length (part_hdr ty)) (drop ptr buf) = part_hdr ty" using h by (simp add: mem_read_Inr_iff)
  then have "ptr < end_part" using newline_after_hdr memchr_at_SomeD e by blast
  then have "ptr < ptr'" using part_elements_advances r by blast
  then show "((env, ty, buf, ptr', entries'), env, ty, buf, ptr, entries)
      \<in> measure (\<lambda>(env, ty, buf, ptr, entries). length buf - ptr)"
    using a by auto
qed simp

declare read_parts.simps [simp del]

text \<open>The reads of the loop itself never leave the buffer.\<close>

lemma read_parts_unfold:
  "read_parts env ty buf ptr entries =
     (if ptr + length (part_hdr ty) < length buf \<and> take (length (part_hdr ty)) (drop ptr buf) = part_hdr ty
      then case memchr buf ptr 10 (length buf - ptr) of
          None \<Rightarrow> Inr entries
        | Some end_part \<Rightarrow>
            (case part_elements env buf end_part [0, 1, 2, 3, 4] ptr [] 0 entries of
               Inl e \<Rightarrow> Inl e
             | Inr (ptr', entries') \<Rightarrow> read_parts env ty buf ptr' entries')
      else Inr entries)"
  by (subst read_parts.simps) (simp add: mem_read_def memchr_at_inside split: option.splits)

text \<open>
  \<open>fread(buf, 1, n, file)\<close>: the bytes there are go to the front of the buffer, the rest of
  it keeps what it held. Its result is a \<open>size_t\<close>, so the source's tests for a negative one
  never hold.
\<close>

definition fread_into :: "byte list \<Rightarrow> byte list \<Rightarrow> nat \<Rightarrow> nat \<Rightarrow> byte list \<times> nat" where
  "fread_into buf content pos n =
     (let data = take n (drop pos content) in (overwrite buf 0 data, pos + length data))"

text \<open>Return code and entries; the type selects the header, any other type is an error.\<close>

definition read_partition_table ::
  "c_env \<Rightarrow> byte list \<Rightarrow> nat \<Rightarrow> flash_partition_entry list \<Rightarrow> nat \<Rightarrow> (int \<times> flash_partition_entry list) c"
where
  "read_partition_table env content offset entries ty =
     cbind (error_if (ty \<noteq> 0 \<and> ty \<noteq> 1) ''Invalid partition table'') (\<lambda>_.
     (let parthdr = part_hdr ty in
      cbind (mem_write (fst (fread_into (uninit env ''buf'' 2048) content offset 2048)) 2047 [0]) (\<lambda>buf.
      cbind (mem_read buf 0 (length parthdr)) (\<lambda>h.
      if h \<noteq> parthdr then Inr (1, entries)
      else cbind (read_parts env ty buf 0 entries) (\<lambda>entries'. Inr (0, entries'))))))"

section \<open>Copying partitions out\<close>

text \<open>
  An output file: its contents and the write position. A write behind the end fills the gap
  with zero bytes.
\<close>

type_synonym out_file = "byte list \<times> nat"

definition fwrite_to :: "out_file \<Rightarrow> byte list \<Rightarrow> out_file" where
  "fwrite_to f data =
     (let (content, pos) = f;
          padded = content @ replicate (pos - length content) 0
      in (overwrite padded pos data, pos + length data))"

definition fseek_out :: "out_file \<Rightarrow> nat \<Rightarrow> out_file" where
  "fseek_out f pos = (fst f, pos)"

text \<open>
  The chunk loop of \<open>write_partition\<close>; at the end of the input the buffer keeps the bytes of
  the chunk before, and they are written again.
\<close>

function write_chunks ::
  "byte list \<Rightarrow> nat \<Rightarrow> byte list \<Rightarrow> nat \<Rightarrow> nat \<Rightarrow> out_file \<Rightarrow> byte list \<times> nat \<times> nat \<times> out_file" where
  "write_chunks content sz buf pos offset out =
     (if 4096 + offset \<le> sz
      then let (buf', pos') = fread_into buf content pos 4096
           in write_chunks content sz buf' pos' (offset + 4096) (fwrite_to out buf')
      else (buf, pos, offset, out))"
  by pat_completeness auto
termination
  by (relation "measure (\<lambda>(content, sz, buf, pos, offset, out). sz - offset)") auto

declare write_chunks.simps [simp del]

definition write_partition ::
  "c_env \<Rightarrow> byte list \<Rightarrow> nat \<Rightarrow> flash_partition_entry \<Rightarrow> out_file \<Rightarrow> out_file" where
  "write_partition env content firmware_offset entry out =
     (let (buf, pos, offset, out') =
            write_chunks content (unat (fp_size entry)) (uninit env ''buf'' 4096)
              (unat (fp_base entry) + firmware_offset) 0 out
      in if offset < unat (fp_size entry)
         then let n = unat (fp_size entry) - offset;
                  (buf', pos') = fread_into buf content pos n
              in fwrite_to out' (take n buf')
         else out')"

definition PATH_MAX :: nat where
  "PATH_MAX = 4096"

text \<open>A file made in the output directory: its path, cut by \<open>snprintf\<close>, and contents.\<close>

definition extract_firmware_partition ::
  "c_env \<Rightarrow> byte list \<Rightarrow> nat \<Rightarrow> flash_partition_entry \<Rightarrow> cstr \<Rightarrow> (cstr \<times> byte list) c" where
  "extract_firmware_partition env content firmware_offset entry output_directory =
     (case fp_name entry of
        None \<Rightarrow> Inl Undefined
      | Some n \<Rightarrow>
          let output = take (PATH_MAX - 1) (output_directory @ bytes ''/'' @ n)
          in cbind (error_if (\<not> can_write env output) ''Can not open output file'') (\<lambda>_.
             Inr (output, fst (write_partition env content firmware_offset entry ([], 0)))))"

fun extract_all ::
  "c_env \<Rightarrow> byte list \<Rightarrow> nat \<Rightarrow> cstr \<Rightarrow> flash_partition_entry list \<Rightarrow> (cstr \<times> byte list) list c" where
  "extract_all env content firmware_offset dir [] = Inr []"
| "extract_all env content firmware_offset dir (e # es) =
     (if fp_name e = None \<and> fp_base e = 0 \<and> fp_size e = 0
      then extract_all env content firmware_offset dir es
      else cbind (extract_firmware_partition env content firmware_offset e dir) (\<lambda>f.
           cbind (extract_all env content firmware_offset dir es) (\<lambda>fs. Inr (f # fs))))"

text \<open>
  \<open>stat_dir\<close> is what \<open>stat\<close> says of the output directory: nothing, or whether it is a
  directory. The result of \<open>fopen\<close> is not looked at, and used.
\<close>

definition extract_firmware ::
  "c_env \<Rightarrow> (cstr \<Rightarrow> bool option) \<Rightarrow> cstr \<Rightarrow> cstr \<Rightarrow> (cstr \<times> byte list) list c" where
  "extract_firmware env stat_dir inp output_directory =
     cbind (error_if (stat_size env inp = None) ''Can not read input firmware'') (\<lambda>_.
     cbind (error_if (stat_dir output_directory = None) ''Failed to stat output directory'') (\<lambda>_.
     cbind (error_if (stat_dir output_directory \<noteq> Some True)
              ''Given output directory is not a directory'') (\<lambda>_.
     (case open_read env inp of
        None \<Rightarrow> Inl Undefined
      | Some content \<Rightarrow>
          cbind (read_partition_table env content 0x1014 (replicate 16 flash_null) 0) (\<lambda>(rc, entries).
          cbind (error_if (rc \<noteq> 0) ''Error can not read the partition table (fwup-ptn)'') (\<lambda>_.
          extract_all env content 0x1014 output_directory entries))))))"

section \<open>Converting a factory image\<close>

text \<open>The names are compared without a test for null.\<close>

fun find_partition ::
  "flash_partition_entry list \<Rightarrow> cstr \<Rightarrow> string \<Rightarrow> flash_partition_entry c" where
  "find_partition [] name msg = Inl (ErrorExit msg)"
| "find_partition (e # es) name msg =
     (case fp_name e of
        None \<Rightarrow> Inl Undefined
      | Some n \<Rightarrow> if n = name then Inr e else find_partition es name msg)"

text \<open>
  The counter is an \<open>int\<close>, kept here as its 32 bits; \<open>offset + sizeof(buf)\<close> is computed in
  \<open>size_t\<close>, after a conversion that extends the sign, and the sum is converted back, which gcc
  defines as the low 32 bits. The size is the difference of two \<open>uint32_t\<close>, extended with zeros.
\<close>

definition int_size :: "u32 \<Rightarrow> u64" where
  "int_size offset = word_of_int (sint offset)"

definition size_int :: "u64 \<Rightarrow> u32" where
  "size_int n = ucast n"

lemma sint_range: "- (2 ^ 31) \<le> sint (w :: u32)" "sint w < 2 ^ 31"
  using sint_greater_eq [of w] sint_less [of w] by simp_all

lemma sint_small: "- (2 ^ 31) \<le> i \<Longrightarrow> i < 2 ^ 31 \<Longrightarrow> sint (word_of_int i :: u32) = i"
  by (simp add: signed_of_int signed_take_bit_int_eq_self)

lemma sint_over: "2 ^ 31 \<le> i \<Longrightarrow> i < 2 ^ 32 \<Longrightarrow> sint (word_of_int i :: u32) = i - 2 ^ 32"
proof -
  assume i: "2 ^ 31 \<le> i" "i < 2 ^ 32"
  have "(i - 2 ^ 32) mod 2 ^ 32 = i mod 2 ^ 32" by simp
  then have "(word_of_int i :: u32) = word_of_int (i - 2 ^ 32)"
    unfolding word_of_int_eq_iff take_bit_eq_mod by simp
  then show ?thesis using i sint_small [of "i - 2 ^ 32"] by (simp only:) simp
qed

lemma uint_size_sum: "uint (int_size offset + 4096) = (sint offset + 4096) mod 2 ^ 64"
proof -
  have "int_size offset + 4096 = word_of_int (sint offset + 4096)" by (simp add: int_size_def)
  then show ?thesis by (simp only: uint_word_of_int) simp
qed

lemma fill_guard:
  "int_size offset + 4096 < (ucast sz :: u64) \<longleftrightarrow> - 4096 \<le> sint offset \<and> sint offset + 4096 < uint (sz :: u32)"
proof -
  have s: "uint sz < 2 ^ 32" using unsigned_less [of sz] by simp
  have u: "uint (ucast sz :: u64) = uint sz" by (simp add: unsigned_ucast_eq take_bit_int_eq_self_iff) (use s in simp)
  show ?thesis
  proof (cases "- 4096 \<le> sint offset")
    case True
    then have "(sint offset + 4096) mod 2 ^ 64 = sint offset + 4096"
      using sint_range [of offset] by (intro mod_pos_pos_trivial) simp_all
    then show ?thesis using True by (simp only: word_less_def uint_size_sum u) simp
  next
    case False
    have "(sint offset + 4096) mod 2 ^ 64 = (sint offset + 4096 + 2 ^ 64) mod 2 ^ 64"
      by (rule mod_add_self2 [symmetric])
    also have "\<dots> = sint offset + 4096 + 2 ^ 64"
      using False sint_range [of offset] by (intro mod_pos_pos_trivial) simp_all
    finally show ?thesis using False s sint_range [of offset] by (simp only: word_less_def uint_size_sum u) simp
  qed
qed

lemma fill_next: "size_int (int_size offset + 4096) = word_of_int (sint offset + 4096)"
proof -
  have "(ucast (word_of_int k :: u64) :: u32) = word_of_int k" for k
    by (rule bit_word_eqI) (simp add: bit_simps)
  moreover have "int_size offset + 4096 = word_of_int (sint offset + 4096)" by (simp add: int_size_def)
  ultimately show ?thesis unfolding size_int_def by (simp only:)
qed

function write_ff_loop :: "u32 \<Rightarrow> u32 \<Rightarrow> out_file \<Rightarrow> u32 \<times> out_file" where
  "write_ff_loop sz offset out =
     (if int_size offset + 4096 < ucast sz
      then write_ff_loop sz (size_int (int_size offset + 4096)) (fwrite_to out (replicate 4096 0xff))
      else (offset, out))"
  by pat_completeness auto
termination
proof (relation "measure (\<lambda>(sz, offset, out). if sint offset < - 4096 then 0 else nat (2 ^ 31 - sint offset))")
  fix sz offset and out :: out_file
  assume "int_size offset + 4096 < (ucast (sz :: u32) :: u64)"
  then have g: "- 4096 \<le> sint offset" by (simp only: fill_guard)
  have b: "sint offset < 2 ^ 31" by (rule sint_range)
  show "((sz, size_int (int_size offset + 4096), fwrite_to out (replicate 4096 0xff)), sz, offset, out) \<in>
      measure (\<lambda>(sz, offset, out). if sint offset < - 4096 then 0 else nat (2 ^ 31 - sint offset))"
  proof (cases "sint offset + 4096 < 2 ^ 31")
    case True
    then have "sint (size_int (int_size offset + 4096)) = sint offset + 4096"
      using g unfolding fill_next by (intro sint_small) simp_all
    then show ?thesis using g b by simp
  next
    case False
    then have "sint (size_int (int_size offset + 4096)) = sint offset + 4096 - 2 ^ 32"
      using b unfolding fill_next by (intro sint_over) simp_all
    then show ?thesis using g b by simp
  qed
qed simp

declare write_ff_loop.simps [simp del]

definition write_ff :: "out_file \<Rightarrow> u32 \<Rightarrow> out_file c" where
  "write_ff out sz =
     (let buf = replicate 4096 0xff;
          (offset, out') = write_ff_loop sz 0 out
      in if int_size offset < ucast sz
         then (let offset' = size_int (ucast sz - int_size offset)
               in cbind (mem_read buf 0 (unat (int_size offset'))) (\<lambda>chunk.
                  Inr (fwrite_to out' chunk)))
         else Inr out')"

text \<open>
  The sizes and bases are 32-bit: their differences wrap around. The result is what the output
  file holds.
\<close>

definition convert_firmware :: "c_env \<Rightarrow> cstr \<Rightarrow> cstr \<Rightarrow> byte list c" where
  "convert_firmware env inp output =
     cbind (error_if (stat_size env inp = None) ''Can not read input firmware'') (\<lambda>_.
     cbind (error_if (open_read env inp = None) ''Can not open input firmware'') (\<lambda>_.
     cbind (error_if (\<not> can_write env output) ''Can not open output firmware'') (\<lambda>_.
     (let content = the (open_read env inp) in
      cbind (read_partition_table env content 0x1014 (replicate MAX_PARTITIONS flash_null) 0) (\<lambda>(rc, fwup).
      cbind (error_if (rc \<noteq> 0) ''Error can not read the partition table (fwup-ptn)'') (\<lambda>_.
      cbind (find_partition fwup (bytes ''os-image'') ''Error can not find os-image partition (fwup)'') (\<lambda>fwup_os.
      cbind (find_partition fwup (bytes ''file-system'') ''Error can not find file-system partition (fwup)'') (\<lambda>fwup_fs.
      cbind (find_partition fwup (bytes ''partition-table'') ''Error can not find partition-table partition'') (\<lambda>fwup_pt.
      cbind (read_partition_table env content (0x1014 + unat (fp_base fwup_pt) + 4)
               (replicate MAX_PARTITIONS flash_null) 1) (\<lambda>(rc', flash).
      cbind (error_if (rc' \<noteq> 0) ''Error can not read the partition table (flash)'') (\<lambda>_.
      cbind (find_partition flash (bytes ''os-image'') ''Error can not find os-image partition (flash)'') (\<lambda>flash_os.
      cbind (find_partition flash (bytes ''file-system'') ''Error can not find file-system partition (flash)'') (\<lambda>flash_fs.
      (let out1 = write_partition env content 0x1014 fwup_os ([], 0) in
       cbind (write_ff out1 (fp_size flash_os - fp_size fwup_os)) (\<lambda>out2.
       (let out3 = fseek_out out2 (unat (fp_base flash_fs - fp_base flash_os));
            out4 = write_partition env content 0x1014 fwup_fs out3
        in cbind (write_ff out4 (fp_size flash_fs - fp_size fwup_fs)) (\<lambda>out5.
           Inr (fst out5))))))))))))))))))"

section \<open>The text format of the two tables\<close>

definition plain_name :: "cstr \<Rightarrow> bool" where
  "plain_name n \<longleftrightarrow> wordlike n \<and> length n \<le> 31"

definition free_entry :: "flash_partition_entry \<Rightarrow> bool" where
  "free_entry e \<longleftrightarrow> fp_name e = None \<and> fp_base e = 0 \<and> fp_size e = 0"

definition plain_entry :: "flash_partition_entry \<Rightarrow> bool" where
  "plain_entry e \<longleftrightarrow> (\<exists>n. fp_name e = Some n \<and> plain_name n)"

lemma add_flash_partition_first:
  assumes "\<forall>e \<in> set pre. \<not> free_entry e" "free_entry e0" "malloc_ok env (length n + 1)"
  shows "add_flash_partition env (pre @ e0 # es) n base sz =
     Inr (pre @ \<lparr>fp_name = Some n, fp_base = ucast base, fp_size = ucast sz\<rparr> # es)"
  using assms by (induction pre) (auto simp: free_entry_def)

lemma add_flash_partition_full:
  "\<forall>e \<in> set es. \<not> free_entry e \<Longrightarrow>
     add_flash_partition env es n base sz = Inl (ErrorExit ''No free flash part entry available.'')"
  by (induction es) (auto simp: free_entry_def)

lemma is_hex_neq: "is_hex b \<Longrightarrow> b \<noteq> 32 \<and> b \<noteq> 10 \<and> b \<noteq> 0"
  by (auto simp: is_hex_def hex_val_def)

lemma fmt_05x_no_space: "32 \<notin> set (fmt_05x v)" "10 \<notin> set (fmt_05x v)" "0 \<notin> set (fmt_05x v)"
  using fmt_05x_digits is_hex_neq by blast+

text \<open>One element of a line, up to the space that ends it.\<close>

lemma element_found:
  assumes "drop ptr buf = xs @ 32 # ys" "32 \<notin> set xs" "ptr + length xs < e"
  shows "memchr_at buf ptr 0x20 (e - ptr) = Inr (Some (ptr + length xs))" "drop (ptr + length xs + 1) buf = ys"
    "\<not> e \<le> ptr"
proof -
  show "memchr_at buf ptr 0x20 (e - ptr) = Inr (Some (ptr + length xs))"
    using assms by (intro memchr_at_Some memchr_found) auto
  have "drop (ptr + length xs + 1) buf = drop (length xs + 1) (drop ptr buf)"
    by (simp add: add.commute add.left_commute)
  then show "drop (ptr + length xs + 1) buf = ys" using assms(1) by simp
  show "\<not> e \<le> ptr" using assms(3) by simp
qed

lemma element_name_eq:
  assumes "drop ptr buf = n @ 32 # ys" "plain_name n"
  shows "element_name buf ptr (ptr + length n) = Inr n"
proof -
  have "takeWhile (\<lambda>b. b \<noteq> 0) n = n"
    using assms(2) by (auto simp: plain_name_def wordlike_def takeWhile_eq_all_conv)
  moreover have "length n + 1 \<le> length (drop ptr buf)" unfolding assms(1) by simp
  then have "ptr + length n \<le> length buf" by simp
  ultimately show ?thesis
    using assms by (subst element_name_inside) (simp_all add: plain_name_def)
qed

locale ptn_format =
  fixes ty :: nat and trail :: "byte list" and line :: "cstr \<Rightarrow> u32 \<Rightarrow> u32 \<Rightarrow> byte list"
  assumes line_eq: "line n b s = part_hdr ty @ 32 # n @ 32 # bytes ''base'' @ 32 #
      (48 # 120 # fmt_05x b) @ 32 # bytes ''size'' @ 32 # (48 # 120 # fmt_05x s) @ trail"
    and trail_end: "last trail = 10" "trail \<noteq> []" "10 \<notin> set (butlast trail)"
    and trail_stops: "\<not> is_hex (hd trail)"
begin

lemma hdr_plain: "32 \<notin> set (part_hdr ty)" "10 \<notin> set (part_hdr ty)" "part_hdr ty \<noteq> []" "part_hdr ty ! 0 \<noteq> 0"
  by (simp_all add: part_hdr_def bytes_def)

lemma line_end:
  assumes "plain_name n"
  shows "\<exists>l. line n b s = l @ [10] \<and> 10 \<notin> set l"
proof -
  have "trail = butlast trail @ [10]" using trail_end by (metis append_butlast_last_id)
  then obtain t where t: "trail = t @ [10]" "10 \<notin> set t" using trail_end(3) by blast
  let ?l = "part_hdr ty @ 32 # n @ 32 # bytes ''base'' @ 32 #
      (48 # 120 # fmt_05x b) @ 32 # bytes ''size'' @ 32 # (48 # 120 # fmt_05x s) @ t"
  have "10 \<notin> set ?l"
    using assms hdr_plain fmt_05x_no_space t(2) by (auto simp: plain_name_def wordlike_def bytes_def)
  moreover have "line n b s = ?l @ [10]" unfolding line_eq t(1) by simp
  ultimately show ?thesis by blast
qed

lemma line_newline:
  assumes "drop ptr buf = line n b s @ rest" "plain_name n"
  shows "memchr buf ptr 10 (length buf - ptr) = Some (ptr + length (line n b s) - 1)"
proof -
  obtain l where l: "line n b s = l @ [10]" "10 \<notin> set l" using line_end assms(2) by blast
  have "length buf - ptr = length (drop ptr buf)" by simp
  also have "\<dots> = length l + 1 + length rest" unfolding assms(1) l(1) by simp
  finally have len: "length buf - ptr = length l + 1 + length rest" .
  then have "memchr buf ptr 10 (length buf - ptr) = Some (ptr + length l)"
    using assms(1) l by (intro memchr_found [where ys = rest]) (simp_all add: len)
  then show ?thesis using l(1) by simp
qed

text \<open>The five elements of a line of the format add the partition it prints.\<close>

lemma elements_of_line:
  assumes buf: "drop ptr buf = line n b s @ rest" and n: "plain_name n" and z: "0 \<in> set rest"
    and e: "e = ptr + length (line n b s) - 1"
  shows "part_elements env buf e [0, 1, 2, 3, 4] ptr [] 0 entries =
     cbind (add_flash_partition env entries n (ucast b) (ucast s)) (\<lambda>es.
       Inr (ptr + length (line n b s), es))"
proof -
  let ?h = "part_hdr ty" and ?B = "48 # 120 # fmt_05x b" and ?S = "48 # 120 # fmt_05x s"
  define p1 where "p1 = ptr + length ?h + 1"
  define p2 where "p2 = p1 + length n + 1"
  define p3 where "p3 = p2 + 4 + 1"
  define p4 where "p4 = p3 + length ?B + 1"
  define p5 where "p5 = p4 + 4 + 1"
  have len: "ptr + length (line n b s) = p5 + length ?S + length trail"
    unfolding line_eq p5_def p4_def p3_def p2_def p1_def by simp
  then have less: "p4 + 4 < e" "p3 + length ?B < e" "p2 + 4 < e" "p1 + length n < e" "ptr + length ?h < e"
    unfolding e p5_def p4_def p3_def p2_def p1_def by simp_all
  have nosp: "32 \<notin> set ?h" "32 \<notin> set n" "32 \<notin> set (bytes ''base'')" "32 \<notin> set ?B" "32 \<notin> set (bytes ''size'')"
    using hdr_plain(1) n fmt_05x_no_space(1) [of b] by (simp_all add: plain_name_def wordlike_def bytes_def)
  have d0: "drop ptr buf = ?h @ 32 # n @ 32 # bytes ''base'' @ 32 # ?B @ 32 # bytes ''size'' @ 32 # ?S @ trail @ rest"
    using buf unfolding line_eq by simp
  note s0 = element_found [OF d0 nosp(1) less(5), folded p1_def]
  note s1 = element_found [OF s0(2) nosp(2) less(4), folded p2_def]
  have l4: "length (bytes ''base'') = 4" "length (bytes ''size'') = 4" by simp_all
  note s2 = element_found [OF s1(2) nosp(3), unfolded l4, OF less(3), folded p3_def]
  note s3 = element_found [OF s2(2) nosp(4) less(2), folded p4_def]
  note s4 = element_found [OF s3(2) nosp(5), unfolded l4, OF less(1), folded p5_def]
  have name: "element_name buf p1 (p1 + length n) = Inr n"
    using s0(2) n by (rule element_name_eq)
  have "strtoul16 (drop p3 buf) = ucast b"
    unfolding s2(2) using strtoul16_fmt_05x [of "32 # bytes ''size'' @ 32 # ?S @ trail @ rest" b]
    by (simp add: is_hex_def hex_val_def)
  moreover have "0 \<in> set (drop p3 buf)" unfolding s2(2) using z by simp
  ultimately have base: "strtoul16_at buf p3 = Inr (ucast b)" by simp
  have "\<not> is_hex (hd (trail @ rest))" using trail_stops trail_end(2) by simp
  then have "strtoul16 (drop p5 buf) = ucast s"
    unfolding s4(2) using strtoul16_fmt_05x [of "trail @ rest" s] by simp
  moreover have "0 \<in> set (drop p5 buf)" unfolding s4(2) using z by simp
  ultimately have sz: "strtoul16_at buf p5 = Inr (ucast s)" by simp
  have p: "ptr + length ?h + 1 = p1" "p1 + length n + 1 = p2" "p2 + 4 + 1 = p3" "p3 + length ?B + 1 = p4"
      "p4 + 4 + 1 = p5"
    by (simp_all only: p1_def p2_def p3_def p4_def p5_def)
  have e1: "e + 1 = ptr + length (line n b s)" unfolding e by (simp add: line_eq)
  show ?thesis
    unfolding part_elements.simps s0(1) s1(1) s2(1) s3(1) s4(1) option.case cbind_simps p name base sz e1
    using s0(3) s1(3) s2(3) s3(3) s4(3) by simp
qed

definition table_text :: "flash_partition_entry list \<Rightarrow> byte list" where
  "table_text es = concat (map (\<lambda>p. line (the (fp_name p)) (fp_base p) (fp_size p)) es)"

text \<open>A table that was printed and ended with a zero byte reads back, entry by entry.\<close>

lemma read_parts_text:
  assumes "drop ptr buf = table_text es @ 0 # rest" "\<forall>p \<in> set es. plain_entry p"
    and "\<forall>n. malloc_ok env n" "\<forall>e \<in> set pre. \<not> free_entry e"
  shows "read_parts env ty buf ptr (pre @ replicate (length es + k) flash_null) =
     Inr (pre @ es @ replicate k flash_null)"
  using assms
proof (induction es arbitrary: ptr pre)
  case Nil
  have "take (length (part_hdr ty)) (drop ptr buf) \<noteq> part_hdr ty"
  proof
    assume t: "take (length (part_hdr ty)) (drop ptr buf) = part_hdr ty"
    have "part_hdr ty ! 0 = take (length (part_hdr ty)) (0 # rest) ! 0"
      using t Nil.prems(1) by (simp add: table_text_def)
    also have "\<dots> = (0 # rest) ! 0" using hdr_plain(3) by (intro nth_take) simp
    finally show False using hdr_plain(4) by simp
  qed
  then show ?case by (subst read_parts_unfold) simp
next
  case (Cons p es)
  obtain n where n: "fp_name p = Some n" "plain_name n"
    using Cons.prems(2) by (auto simp: plain_entry_def)
  let ?l = "line n (fp_base p) (fp_size p)" and ?rest = "table_text es @ 0 # rest"
  have d: "drop ptr buf = ?l @ ?rest" using Cons.prems(1) n by (simp add: table_text_def)
  have hdr: "take (length (part_hdr ty)) (drop ptr buf) = part_hdr ty"
    unfolding d line_eq by simp
  have guard: "ptr + length (part_hdr ty) < length buf"
  proof -
    have "length (part_hdr ty) < length (drop ptr buf)" unfolding d line_eq by simp
    then show ?thesis by simp
  qed
  have slots: "replicate (length (p # es) + k) flash_null = flash_null # replicate (length es + k) flash_null"
    by simp
  have "add_flash_partition env (pre @ flash_null # replicate (length es + k) flash_null) n
      (ucast (fp_base p)) (ucast (fp_size p)) =
      Inr (pre @ \<lparr>fp_name = Some n, fp_base = ucast (ucast (fp_base p) :: u64),
        fp_size = ucast (ucast (fp_size p) :: u64)\<rparr> # replicate (length es + k) flash_null)"
    using Cons.prems(3,4) by (intro add_flash_partition_first) (simp_all add: free_entry_def)
  also have "\<lparr>fp_name = Some n, fp_base = ucast (ucast (fp_base p) :: u64),
        fp_size = ucast (ucast (fp_size p) :: u64)\<rparr> = p"
  proof -
    have "ucast (ucast v :: u64) = v" for v :: u32
      by (rule bit_word_eqI) (auto simp: bit_simps)
    then show ?thesis using n(1) by (intro flash_partition_entry.equality) simp_all
  qed
  finally have added: "add_flash_partition env (pre @ replicate (length (p # es) + k) flash_null) n
      (ucast (fp_base p)) (ucast (fp_size p)) = Inr ((pre @ [p]) @ replicate (length es + k) flash_null)"
    by (simp add: slots)
  have "drop (ptr + length ?l) buf = drop (length ?l) (drop ptr buf)"
    by (simp add: add.commute)
  then have next_line: "drop (ptr + length ?l) buf = ?rest" unfolding d by simp
  have "read_parts env ty buf (ptr + length ?l) ((pre @ [p]) @ replicate (length es + k) flash_null) =
      Inr ((pre @ [p]) @ es @ replicate k flash_null)"
    using Cons.prems n next_line by (intro Cons.IH) (auto simp: free_entry_def)
  then show ?case
    using hdr guard line_newline [OF d n(2)] elements_of_line [OF d n(2) _ refl] added
    by (subst read_parts_unfold) simp
qed

end

lemma overwrite_one: "i < length buf \<Longrightarrow> overwrite buf i [b] = buf[i := b]"
  by (simp add: overwrite_def upd_conv_take_nth_drop)

lemma fread_into_prefix:
  assumes "drop off content = t @ 0 # rest" "length t < n" "length buf = n"
  shows "\<exists>r. (fst (fread_into buf content off n))[n - 1 := 0] = t @ 0 # r"
    "length (fst (fread_into buf content off n)) = n"
proof -
  let ?d = "take n (drop off content)"
  obtain r where d: "?d = t @ 0 # r"
    using assms(1,2) by (cases "n - length t") auto
  have len: "length ?d \<le> n" by simp
  have "fst (fread_into buf content off n) = ?d @ drop (length ?d) buf"
    by (simp add: fread_into_def Let_def overwrite_def)
  also have "\<dots> = t @ 0 # r @ drop (length ?d) buf" unfolding d by simp
  finally have eq: "fst (fread_into buf content off n) = t @ 0 # r @ drop (length ?d) buf" .
  show "\<exists>r. (fst (fread_into buf content off n))[n - 1 := 0] = t @ 0 # r"
    unfolding eq using assms(2) by (cases "n - 1 - length t") (auto simp: list_update_append)
  show "length (fst (fread_into buf content off n)) = n"
    using len assms(3) by (simp add: fread_into_def Let_def length_overwrite)
qed

context ptn_format
begin

lemma read_partition_table_text:
  assumes "drop off content = table_text es @ 0 # rest" "length (table_text es) < 2048"
    and "\<forall>p \<in> set es. plain_entry p" "es \<noteq> []" "\<forall>n. malloc_ok env n" "ty = 0 \<or> ty = 1"
  shows "read_partition_table env content off (replicate (length es + k) flash_null) ty =
     Inr (0, es @ replicate k flash_null)"
proof -
  let ?raw = "fst (fread_into (uninit env ''buf'' 2048) content off 2048)"
  obtain r where r: "?raw[2047 := 0] = table_text es @ 0 # r"
    using fread_into_prefix(1) [OF assms(1,2), of "uninit env ''buf'' 2048"] by auto
  have "length ?raw = 2048" using fread_into_prefix(2) [OF assms(1,2), of "uninit env ''buf'' 2048"] by simp
  then have buf: "mem_write ?raw 2047 [0] = Inr (table_text es @ 0 # r)"
    unfolding r [symmetric] by (simp add: mem_write_def overwrite_one)
  obtain p es' where es: "es = p # es'" using assms(4) by (cases es) auto
  have "mem_read (table_text es @ 0 # r) 0 (length (part_hdr ty)) = Inr (part_hdr ty)"
    unfolding es table_text_def list.map concat.simps line_eq by (simp add: mem_read_def)
  moreover have "read_parts env ty (table_text es @ 0 # r) 0 (replicate (length es + k) flash_null) =
      Inr (es @ replicate k flash_null)"
    using read_parts_text [of 0 "table_text es @ 0 # r" es r env "[]" k] assms(3,5) by simp
  ultimately show ?thesis
    using assms(6) unfolding read_partition_table_def Let_def buf by auto
qed

end

interpretation fwup: ptn_format 0 "[9, 13, 10]" image_line
  by unfold_locales
    (simp_all add: image_line_def part_hdr_def bytes_def is_hex_def hex_val_def)

interpretation flash: ptn_format 1 "[10]" flash_line
  by unfold_locales
    (simp_all add: flash_line_def part_hdr_def bytes_def is_hex_def hex_val_def)

section \<open>Reading the tables the tool writes\<close>

text \<open>The entries of the image partition table of a list of image partitions.\<close>

fun image_entries :: "nat \<Rightarrow> image_partition_entry list \<Rightarrow> flash_partition_entry list" where
  "image_entries base [] = []"
| "image_entries base (p # ps) =
     \<lparr>fp_name = ip_name p, fp_base = of_nat base, fp_size = of_nat (ip_size p)\<rparr> #
     image_entries (base + ip_size p) ps"

definition plain_part :: "image_partition_entry \<Rightarrow> bool" where
  "plain_part p \<longleftrightarrow> (\<exists>n. ip_name p = Some n \<and> plain_name n)"

lemma length_image_entries [simp]: "length (image_entries base es) = length es"
  by (induction base es rule: image_entries.induct) simp_all

lemma image_entries_text: "fwup.table_text (image_entries base es) = image_text base es"
  by (induction base es rule: image_entries.induct) (simp_all add: fwup.table_text_def)

lemma plain_image_entries:
  "\<forall>p \<in> set es. plain_part p \<Longrightarrow> \<forall>e \<in> set (image_entries base es). plain_entry e"
  by (induction base es rule: image_entries.induct) (auto simp: plain_part_def plain_entry_def)

lemma flash_table_text: "flash.table_text es = flash_text es"
proof -
  have "flash_entry_line = (\<lambda>p. flash_line (the (fp_name p)) (fp_base p) (fp_size p))"
    by (rule ext) (simp add: flash_entry_line_def)
  then show ?thesis by (simp add: flash.table_text_def flash_text_def)
qed

lemma drop_factory_body:
  assumes "vendor_fits info"
  shows "drop 0x1014 (factory_image info es) = table_block es @ part_data es"
proof -
  have "factory_image info es =
      (be32 (of_nat (0x1814 + total_size es)) @ md5_digest (md5_salt @ factory_body info es) @
       vendor_block (di_vendor info)) @ table_block es @ part_data es"
    by (simp add: factory_image_def factory_body_def)
  moreover have "length (be32 (of_nat (0x1814 + total_size es)) @ md5_digest (md5_salt @ factory_body info es) @
       vendor_block (di_vendor info)) = 0x1014"
    using length_vendor_block [OF assms] length_md5_digest by simp
  ultimately show ?thesis by (metis append_eq_conv_conj)
qed

lemma read_factory_table:
  assumes "vendor_fits info" "length (image_text 0x800 es) < 0x800" "\<forall>p \<in> set es. plain_part p"
    and "es \<noteq> []" "\<forall>n. malloc_ok env n" "length es \<le> m"
  shows "read_partition_table env (factory_image info es) 0x1014 (replicate m flash_null) 0 =
     Inr (0, image_entries 0x800 es @ replicate (m - length es) flash_null)"
proof -
  let ?es = "image_entries 0x800 es"
  have "drop 0x1014 (factory_image info es) = fwup.table_text ?es @ 0 #
      (replicate (0x7ff - length (image_text 0x800 es)) 0xff @ part_data es)"
    using drop_factory_body [OF assms(1)] by (simp add: table_block_def Let_def image_entries_text)
  moreover have "?es \<noteq> []" using assms(4) by (metis length_0_conv length_image_entries)
  ultimately show ?thesis
    using fwup.read_partition_table_text [of "0x1014" "factory_image info es" ?es _ env "m - length es"]
      assms plain_image_entries [OF assms(3)] by (auto simp: image_entries_text)
qed

section \<open>Copying\<close>

lemma fwrite_to_append: "fwrite_to (c, length c) data = (c @ data, length (c @ data))"
  by (simp add: fwrite_to_def overwrite_def)

lemma fread_into_full:
  assumes "pos + n \<le> length content" "n \<le> length buf"
  shows "fread_into buf content pos n = (take n (drop pos content) @ drop n buf, pos + n)"
  using assms by (simp add: fread_into_def Let_def overwrite_def)

lemma write_chunks_copies:
  assumes "pos + (sz - offset) \<le> length content" "offset \<le> sz" "length buf = 4096"
  shows "\<exists>buf' k. write_chunks content sz buf pos offset (c, length c) =
      (buf', pos + k, offset + k, (c @ take k (drop pos content), length c + k)) \<and>
     length buf' = 4096 \<and> offset + k \<le> sz \<and> sz < offset + k + 4096"
  using assms
proof (induction "sz - offset" arbitrary: buf pos offset c rule: less_induct)
  case less
  show ?case
  proof (cases "4096 + offset \<le> sz")
    case False
    then show ?thesis
      using less.prems by (intro exI [of _ buf] exI [of _ 0]) (subst write_chunks.simps, simp)
  next
    case True
    let ?d = "take 4096 (drop pos content)"
    have fits: "pos + 4096 \<le> length content" using less.prems True by linarith
    then have rd: "fread_into buf content pos 4096 = (?d, pos + 4096)"
      using less.prems(3) by (simp add: fread_into_full)
    have len: "length ?d = 4096" using fits by simp
    obtain buf' k where k: "write_chunks content sz ?d (pos + 4096) (offset + 4096)
          (c @ ?d, length (c @ ?d)) =
        (buf', pos + 4096 + k, offset + 4096 + k,
          ((c @ ?d) @ take k (drop (pos + 4096) content), length (c @ ?d) + k))"
        "length buf' = 4096" "offset + 4096 + k \<le> sz" "sz < offset + 4096 + k + 4096"
    proof -
      have "sz - (offset + 4096) < sz - offset" "offset + 4096 \<le> sz" using True by linarith+
      moreover have "pos + 4096 + (sz - (offset + 4096)) \<le> length content"
        using less.prems(1) True by linarith
      ultimately show thesis
        using less.hyps [of "offset + 4096" "pos + 4096" ?d "c @ ?d"] len that by auto
    qed
    have tk: "?d @ take k (drop (pos + 4096) content) = take (4096 + k) (drop pos content)"
      by (simp only: take_add [of 4096 k "drop pos content"] drop_drop add.commute [of pos 4096])
    have "write_chunks content sz buf pos offset (c, length c) =
        write_chunks content sz ?d (pos + 4096) (offset + 4096) (c @ ?d, length (c @ ?d))"
      using True rd by (subst write_chunks.simps) (simp add: fwrite_to_append)
    then show ?thesis
      using k len tk by (intro exI [of _ buf'] exI [of _ "4096 + k"]) (simp add: add.assoc)
  qed
qed

text \<open>Inside the input, \<open>write_partition\<close> appends the bytes of the partition.\<close>

lemma write_partition_copies:
  assumes "unat (fp_base e) + off + unat (fp_size e) \<le> length content"
  shows "write_partition env content off e (c, length c) =
     (c @ take (unat (fp_size e)) (drop (unat (fp_base e) + off) content), length c + unat (fp_size e))"
proof -
  let ?sz = "unat (fp_size e)" and ?pos = "unat (fp_base e) + off"
  obtain buf k where k: "write_chunks content ?sz (uninit env ''buf'' 4096) ?pos 0 (c, length c) =
      (buf, ?pos + k, k, (c @ take k (drop ?pos content), length c + k))"
      "length buf = 4096" "k \<le> ?sz" "?sz < k + 4096"
    using write_chunks_copies [of ?pos ?sz 0 content "uninit env ''buf'' 4096" c] assms by auto
  have len: "length (c @ take k (drop ?pos content)) = length c + k" using assms k(3) by simp
  show ?thesis
  proof (cases "k < ?sz")
    case False
    then show ?thesis using k by (simp add: write_partition_def)
  next
    case True
    let ?r = "take (?sz - k) (drop (?pos + k) content)"
    have rd: "fread_into buf content (?pos + k) (?sz - k) = (?r @ drop (?sz - k) buf, ?pos + k + (?sz - k))"
      using assms k by (intro fread_into_full) simp_all
    have lr: "length ?r = ?sz - k" using assms k(3) by simp
    have "fwrite_to (c @ take k (drop ?pos content), length c + k) ?r =
        ((c @ take k (drop ?pos content)) @ ?r, length c + k + (?sz - k))"
      unfolding len [symmetric] fwrite_to_append using lr by simp
    moreover have "take k (drop ?pos content) @ ?r = take ?sz (drop ?pos content)"
    proof -
      have "take ?sz (drop ?pos content) = take (k + (?sz - k)) (drop ?pos content)" using k(3) by simp
      also have "\<dots> = take k (drop ?pos content) @ take (?sz - k) (drop k (drop ?pos content))"
        by (rule take_add)
      finally show ?thesis by (simp add: add.commute add.left_commute)
    qed
    ultimately show ?thesis
      using True k lr by (simp add: write_partition_def rd Let_def)
  qed
qed

lemma extract_all_null: "extract_all env content off dir (replicate k flash_null) = Inr []"
  by (induction k) simp_all

definition out_path :: "cstr \<Rightarrow> cstr \<Rightarrow> cstr" where
  "out_path dir n = take (PATH_MAX - 1) (dir @ bytes ''/'' @ n)"

lemma extract_all_parts:
  assumes "drop (0x1014 + base) content = part_data es" "base + total_size es < 2 ^ 32"
    and "\<forall>p \<in> set es. plain_part p \<and> wf_part p" "\<forall>f. can_write env f"
    and "0x1014 + base \<le> length content"
  shows "extract_all env content 0x1014 dir (image_entries base es @ replicate k flash_null) =
     Inr (map (\<lambda>p. (out_path dir (the (ip_name p)), ip_data p)) es)"
  using assms
proof (induction es arbitrary: base)
  case Nil
  then show ?case by (simp add: extract_all_null)
next
  case (Cons p es)
  obtain n where n: "ip_name p = Some n" using Cons.prems(3) by (auto simp: plain_part_def)
  have d: "length (ip_data p) = ip_size p" using Cons.prems(3) by (simp add: wf_part_def)
  let ?e = "\<lparr>fp_name = Some n, fp_base = of_nat base :: u32, fp_size = of_nat (ip_size p) :: u32\<rparr>"
  have u: "unat (of_nat base :: u32) = base" "unat (of_nat (ip_size p) :: u32) = ip_size p"
    using Cons.prems(2) by (simp_all add: unat_of_nat)
  have data: "drop (0x1014 + base) content = ip_data p @ part_data es" using Cons.prems(1) by simp
  have "length (drop (0x1014 + base) content) \<ge> ip_size p" unfolding data using d by simp
  then have fits: "0x1014 + base + ip_size p \<le> length content" using Cons.prems(5) by simp
  have "write_partition env content 0x1014 ?e ([], 0) =
      (take (ip_size p) (drop (base + 0x1014) content), ip_size p)"
    using write_partition_copies [of ?e "0x1014" content env "[]"] fits u by simp
  also have "take (ip_size p) (drop (base + 0x1014) content) = ip_data p"
    using data d by (simp add: add.commute)
  finally have one: "extract_firmware_partition env content 0x1014 ?e dir = Inr (out_path dir n, ip_data p)"
    using Cons.prems(4) by (simp add: extract_firmware_partition_def out_path_def Let_def)
  have "drop (0x1014 + (base + ip_size p)) content = drop (ip_size p) (drop (0x1014 + base) content)"
    by (simp add: add_ac)
  then have "drop (0x1014 + (base + ip_size p)) content = part_data es" unfolding data using d by simp
  then have "extract_all env content 0x1014 dir (image_entries (base + ip_size p) es @ replicate k flash_null) =
      Inr (map (\<lambda>p. (out_path dir (the (ip_name p)), ip_data p)) es)"
    using Cons.prems fits by (intro Cons.IH) simp_all
  then show ?case using one n by simp
qed

lemma length_factory_image:
  assumes "vendor_fits info" "length (image_text 0x800 es) < 0x800" "\<forall>p \<in> set es. wf_part p"
  shows "length (factory_image info es) = 0x1814 + total_size es"
  using length_vendor_block [OF assms(1)] length_table_block [OF assms(2)] length_part_data [OF assms(3)]
  by (simp add: factory_image_def factory_body_def)

lemma extract_factory_image:
  assumes "vendor_fits info" "length (image_text 0x800 es) < 0x800" "es \<noteq> []" "length es \<le> 16"
    and "\<forall>p \<in> set es. plain_part p \<and> wf_part p" "0x1814 + total_size es < 2 ^ 32"
    and "\<forall>n. malloc_ok env n" "\<forall>f. can_write env f" "stat_dir dir = Some True"
    and "stat_size env inp \<noteq> None" "open_read env inp = Some (factory_image info es)"
  shows "extract_firmware env stat_dir inp dir =
     Inr (map (\<lambda>p. (out_path dir (the (ip_name p)), ip_data p)) es)"
proof -
  let ?img = "factory_image info es"
  have tab: "read_partition_table env ?img 0x1014 (replicate 16 flash_null) 0 =
      Inr (0, image_entries 0x800 es @ replicate (16 - length es) flash_null)"
    using assms by (intro read_factory_table) simp_all
  have "drop (0x1014 + 0x800) ?img = drop 0x800 (drop 0x1014 ?img)" by simp
  also have "\<dots> = part_data es"
    using drop_factory_body [OF assms(1)] length_table_block [OF assms(2)] by simp
  finally have "extract_all env ?img 0x1014 dir (image_entries 0x800 es @ replicate (16 - length es) flash_null) =
      Inr (map (\<lambda>p. (out_path dir (the (ip_name p)), ip_data p)) es)"
    using assms length_factory_image [OF assms(1,2)] by (intro extract_all_parts) simp_all
  then show ?thesis
    using tab assms(9-11) by (auto simp: extract_firmware_def)
qed

section \<open>Conversion\<close>

lemma unat_size: "unat (ucast (w :: u32) :: u64) = unat w"
proof -
  have "unat w < 2 ^ 32" using unsigned_less [of w] by simp
  then have "take_bit 64 (unat w) = unat w" by (intro take_bit_nat_eq_self) simp
  then show ?thesis by (simp add: unsigned_ucast_eq)
qed

text \<open>A counter that has not overflowed, as a number.\<close>

lemma small_int:
  assumes "n < 2 ^ 31"
  shows "sint (of_nat n :: u32) = int n" "int_size (of_nat n) = of_nat n"
proof -
  show "sint (of_nat n :: u32) = int n" using sint_small [of "int n"] assms by simp
  then show "int_size (of_nat n) = of_nat n" unfolding int_size_def by simp
qed

lemma fill_step:
  assumes "n < 2 ^ 31"
  shows "write_ff_loop sz (of_nat n) out =
     (if n + 4096 < unat sz then write_ff_loop sz (of_nat (n + 4096)) (fwrite_to out (replicate 4096 0xff))
      else (of_nat n, out))"
proof -
  have "int_size (of_nat n) + 4096 < (ucast sz :: u64) \<longleftrightarrow> n + 4096 < unat sz"
    unfolding fill_guard small_int(1) [OF assms] uint_nat by linarith
  moreover have "size_int (int_size (of_nat n) + 4096) = of_nat (n + 4096)"
    unfolding fill_next small_int(1) [OF assms] by simp
  ultimately show ?thesis by (subst write_ff_loop.simps) (simp only:)
qed

lemma write_ff_loop_ok:
  assumes "unat sz \<le> 2 ^ 31" "n \<le> unat sz" "n < 2 ^ 31"
  shows "\<exists>k. write_ff_loop sz (of_nat n) (c, length c) =
     (of_nat (n + k), (c @ replicate k 0xff, length c + k)) \<and>
     n + k \<le> unat sz \<and> n + k < 2 ^ 31 \<and> unat sz \<le> n + k + 4096"
  using assms
proof (induction "unat sz - n" arbitrary: n c rule: less_induct)
  case less
  show ?case
  proof (cases "n + 4096 < unat sz")
    case False
    then show ?thesis using less.prems by (intro exI [of _ 0]) (simp add: fill_step)
  next
    case True
    let ?c = "c @ replicate 4096 (0xff :: byte)"
    have "unat sz - (n + 4096) < unat sz - n" "n + 4096 \<le> unat sz" "n + 4096 < 2 ^ 31"
      using True less.prems(1) by linarith+
    then obtain k where k: "write_ff_loop sz (of_nat (n + 4096)) (?c, length ?c) =
        (of_nat (n + 4096 + k), (?c @ replicate k 0xff, length ?c + k))"
        "n + 4096 + k \<le> unat sz" "n + 4096 + k < 2 ^ 31" "unat sz \<le> n + 4096 + k + 4096"
      using less.hyps [of "n + 4096" ?c] less.prems(1) by blast
    have "write_ff_loop sz (of_nat n) (c, length c) = write_ff_loop sz (of_nat (n + 4096)) (?c, length ?c)"
      unfolding fill_step [OF less.prems(3)] using True by (simp only: if_True fwrite_to_append)
    also have "\<dots> = (of_nat (n + (4096 + k)), (c @ replicate (4096 + k) 0xff, length c + (4096 + k)))"
      unfolding k(1) replicate_add by (simp add: add.assoc)
    finally show ?thesis
      using k(2-4) by (intro exI [of _ "4096 + k"]) (simp only: add.assoc simp_thms)
  qed
qed

lemma write_ff_loop_over:
  assumes "2 ^ 31 < unat sz" "4096 dvd n" "n < 2 ^ 31"
  shows "write_ff_loop sz (of_nat n) (c, length c) =
     (of_nat (2 ^ 31), (c @ replicate (2 ^ 31 - n) 0xff, length c + (2 ^ 31 - n)))"
  using assms
proof (induction "2 ^ 31 - n" arbitrary: n c rule: less_induct)
  case less
  have le: "n + 4096 \<le> 2 ^ 31"
  proof -
    obtain j where j: "n = 4096 * j" using less.prems(2) by blast
    then have "j < 2 ^ 19" using less.prems(3) by simp
    then show ?thesis using j by simp
  qed
  let ?c = "c @ replicate 4096 (0xff :: byte)"
  have lt: "n + 4096 < unat sz" using le less.prems(1) by linarith
  have step: "write_ff_loop sz (of_nat n) (c, length c) = write_ff_loop sz (of_nat (n + 4096)) (?c, length ?c)"
    unfolding fill_step [OF less.prems(3)] using lt by (simp only: if_True fwrite_to_append)
  have "2 ^ 31 - n = 4096 + (2 ^ 31 - (n + 4096))" using le by simp
  then have r: "?c @ replicate (2 ^ 31 - (n + 4096)) 0xff = c @ replicate (2 ^ 31 - n) 0xff"
      "length ?c + (2 ^ 31 - (n + 4096)) = length c + (2 ^ 31 - n)"
    by (simp_all only: replicate_add append_assoc length_append length_replicate add.assoc)
  show ?case
  proof (cases "n + 4096 < 2 ^ 31")
    case True
    have "2 ^ 31 - (n + 4096) < 2 ^ 31 - n" using True by linarith
    moreover have "4096 dvd n + 4096" using less.prems(2) by (simp add: dvd_add)
    ultimately show ?thesis
      unfolding step using less.hyps [of "n + 4096" ?c] True less.prems(1) r by (simp only:)
  next
    case False
    then have n: "n + 4096 = 2 ^ 31" using le by linarith
    have "sint (word_of_int (2 ^ 31) :: u32) = - (2 ^ 31)" using sint_over [of "2 ^ 31"] by simp
    moreover have "(of_nat (2 ^ 31) :: u32) = word_of_int (2 ^ 31)" by simp
    ultimately have "\<not> int_size (of_nat (2 ^ 31)) + 4096 < (ucast sz :: u64)"
      unfolding fill_guard by (simp only:) simp
    then show ?thesis
      unfolding step n by (subst write_ff_loop.simps) (use r n in \<open>simp only: if_False diff_self_eq_0 replicate_0 append_Nil2 add_0_right\<close>)
  qed
qed

text \<open>\<open>write_ff\<close> appends the fill; at 2 GiB its counter wraps around and it stops.\<close>

lemma write_ff_eq:
  "write_ff (c, length c) sz =
     (let n = min (unat sz) (2 ^ 31) in Inr (c @ replicate n 0xff, length c + n))"
proof (cases "unat sz \<le> 2 ^ 31")
  case False
  have l: "write_ff_loop sz 0 (c, length c) = (of_nat (2 ^ 31), (c @ replicate (2 ^ 31) 0xff, length c + 2 ^ 31))"
    using write_ff_loop_over [of sz 0 c] False by simp
  have "sint (of_nat (2 ^ 31) :: u32) = - (2 ^ 31)" using sint_over [of "2 ^ 31"] by simp
  then have "int_size (of_nat (2 ^ 31)) = - (2 ^ 31)" unfolding int_size_def by (simp only:) simp
  moreover have "\<not> - (2 ^ 31) < (ucast sz :: u64)"
  proof -
    have "unat (ucast sz :: u64) = unat sz" by (rule unat_size)
    moreover have "unat sz < 2 ^ 32" using unsigned_less [of sz] by simp
    moreover have "unat (- (2 ^ 31) :: u64) = 2 ^ 64 - 2 ^ 31" by simp
    ultimately show ?thesis unfolding word_less_nat_alt by simp
  qed
  ultimately show ?thesis using False unfolding write_ff_def l Let_def prod.case by simp
next
  case True
  obtain k where k: "write_ff_loop sz 0 (c, length c) = (of_nat k, (c @ replicate k 0xff, length c + k))"
      "k \<le> unat sz" "k < 2 ^ 31" "unat sz \<le> k + 4096"
    using write_ff_loop_ok [OF True, of 0 c] by auto
  define m where "m = unat sz - k"
  have size: "(ucast sz :: u64) = of_nat (unat sz)" by simp
  have "unat (of_nat k :: u64) = k" using k(3) by (simp add: unat_of_nat)
  moreover have "unat (ucast sz :: u64) = unat sz" by (rule unat_size)
  ultimately have less: "of_nat k < (ucast sz :: u64) \<longleftrightarrow> k < unat sz" by (simp add: word_less_nat_alt)
  have "(ucast sz :: u64) - of_nat k = of_nat m" unfolding size m_def using k(2) by (simp add: of_nat_diff)
  moreover have "size_int (of_nat m) = of_nat m"
    unfolding size_int_def by (rule bit_word_eqI) (simp add: bit_simps)
  moreover have m: "m \<le> 4096" unfolding m_def using k(4) by linarith
  then have "int_size (of_nat m) = of_nat m" "unat (of_nat m :: u64) = m"
    using small_int(2) [of m] by (simp_all add: unat_of_nat)
  ultimately have rest: "mem_read (replicate 4096 (0xff :: byte)) 0
      (unat (int_size (size_int (ucast sz - of_nat k)))) = Inr (replicate m 0xff)"
    using m by (simp add: mem_read_def)
  have sum: "k + m = unat sz" unfolding m_def using k(2) by simp
  have "fwrite_to (c @ replicate k 0xff, length c + k) (replicate m 0xff) =
      (c @ replicate (unat sz) 0xff, length c + unat sz)"
    using fwrite_to_append [of "c @ replicate k 0xff" "replicate m 0xff"]
    by (simp add: sum [symmetric] replicate_add add.assoc)
  then show ?thesis
    using True k(2) rest less sum
    unfolding write_ff_def k(1) Let_def prod.case small_int(2) [OF k(3)] by auto
qed

lemma find_partition_eq:
  assumes "flash_lookup es name = Some e" "\<forall>p \<in> set es. plain_entry p"
  shows "find_partition (es @ xs) name msg = Inr e"
  using assms by (induction es) (auto simp: flash_lookup_def plain_entry_def split: if_splits)

lemma find_partition_null:
  assumes "flash_lookup es name = None" "\<forall>p \<in> set es. plain_entry p"
  shows "find_partition (es @ flash_null # xs) name msg = Inl Undefined"
  using assms by (induction es) (auto simp: flash_lookup_def plain_entry_def split: if_splits)

text \<open>Where the entry of an image partition points to.\<close>

lemma image_entries_lookup:
  assumes "image_lookup es n = Some p" "drop (0x1014 + base) content = part_data es"
    and "\<forall>q \<in> set es. wf_part q" "base + total_size es < 2 ^ 32" "0x1014 + base \<le> length content"
  shows "\<exists>e rest. flash_lookup (image_entries base es) n = Some e \<and> unat (fp_size e) = ip_size p \<and>
     drop (0x1014 + unat (fp_base e)) content = ip_data p @ rest \<and>
     0x1014 + unat (fp_base e) + ip_size p \<le> length content \<and>
     fp_size e = of_nat (ip_size p) \<and> length (ip_data p) = ip_size p"
  using assms
proof (induction es arbitrary: base)
  case Nil
  then show ?case by (simp add: image_lookup_def)
next
  case (Cons q es)
  have d: "length (ip_data q) = ip_size q" using Cons.prems(3) by (simp add: wf_part_def)
  have data: "drop (0x1014 + base) content = ip_data q @ part_data es" using Cons.prems(2) by simp
  have "ip_size q \<le> length (drop (0x1014 + base) content)" unfolding data using d by simp
  then have fits: "0x1014 + base + ip_size q \<le> length content" using Cons.prems(5) by simp
  show ?case
  proof (cases "ip_name q = Some n")
    case True
    then have "p = q" using Cons.prems(1) by (simp add: image_lookup_def)
    moreover have "unat (of_nat base :: u32) = base" "unat (of_nat (ip_size q) :: u32) = ip_size q"
      using Cons.prems(4) by (simp_all add: unat_of_nat)
    ultimately show ?thesis using True data fits d by (simp add: flash_lookup_def)
  next
    case False
    have "drop (0x1014 + (base + ip_size q)) content = drop (ip_size q) (drop (0x1014 + base) content)"
      by (simp add: add_ac)
    then have "drop (0x1014 + (base + ip_size q)) content = part_data es" unfolding data using d by simp
    then show ?thesis
      using Cons.IH [of "base + ip_size q"] Cons.prems False fits
      by (simp add: image_lookup_def flash_lookup_def add.assoc)
  qed
qed

lemma read_flash_table:
  assumes "drop off content = partition_table_bytes fl @ rest" "4 + length (flash_text fl) < 0x800"
    and "\<forall>p \<in> set fl. plain_entry p" "fl \<noteq> []" "\<forall>n. malloc_ok env n" "length fl \<le> m"
  shows "read_partition_table env content (off + 4) (replicate m flash_null) 1 =
     Inr (0, fl @ replicate (m - length fl) flash_null)"
proof -
  have "drop (off + 4) content = drop 4 (drop off content)" by (simp add: add.commute)
  then have "drop (off + 4) content = flash.table_text fl @ 0 #
      (replicate (0x800 - (length (flash_text fl) + 5)) 0xff @ rest)"
    unfolding assms(1) by (simp add: partition_table_bytes_def flash_table_text)
  then show ?thesis
    using flash.read_partition_table_text [of "off + 4" content fl _ env "m - length fl"] assms(2-6)
    by (simp add: flash_table_text)
qed

text \<open>
  The conversion of a factory image whose layout has file-system right behind os-image: both
  partitions, each filled up to its size in flash.
\<close>

lemma convert_factory_image:
  assumes fmt: "vendor_fits info" "length (image_text 0x800 es) < 0x800" "es \<noteq> []" "length es \<le> 32"
      "\<forall>p \<in> set es. plain_part p \<and> wf_part p" "0x1814 + total_size es < 2 ^ 32"
    and env: "\<forall>n. malloc_ok env n" "\<forall>f. can_write env f"
      "stat_size env inp \<noteq> None" "open_read env inp = Some (factory_image info es)"
    and fl: "fl = live_flash (di_partitions info)" "4 + length (flash_text fl) < 0x800"
      "\<forall>p \<in> set fl. plain_entry p" "fl \<noteq> []" "length fl \<le> 32"
    and parts: "image_lookup es (bytes ''os-image'') = Some po" "image_lookup es (bytes ''file-system'') = Some pf"
      "image_lookup es (bytes ''partition-table'') = Some (table_part info)"
    and places: "flash_lookup fl (bytes ''os-image'') = Some eo" "flash_lookup fl (bytes ''file-system'') = Some ef"
      "unat (fp_base eo) + unat (fp_size eo) = unat (fp_base ef)"
      "ip_size po \<le> unat (fp_size eo)" "ip_size pf \<le> unat (fp_size ef)"
      "unat (fp_size eo) \<le> 2 ^ 31" "unat (fp_size ef) \<le> 2 ^ 31"
  shows "convert_firmware env inp outp =
     Inr (ip_data po @ replicate (unat (fp_size eo) - ip_size po) 0xff @
       ip_data pf @ replicate (unat (fp_size ef) - ip_size pf) 0xff)"
proof -
  let ?img = "factory_image info es" and ?E = "image_entries 0x800 es"
  have plain: "\<forall>e \<in> set ?E. plain_entry e" using fmt(5) by (intro plain_image_entries) simp
  have "drop (0x1014 + 0x800) ?img = drop 0x800 (drop 0x1014 ?img)" by simp
  also have "\<dots> = part_data es"
    using drop_factory_body [OF fmt(1)] length_table_block [OF fmt(2)] by simp
  finally have data: "drop (0x1014 + 0x800) ?img = part_data es" .
  have len: "0x1014 + 0x800 \<le> length ?img" "0x800 + total_size es < 2 ^ 32"
    using length_factory_image [OF fmt(1,2)] fmt(5,6) by simp_all
  have wf: "\<forall>q \<in> set es. wf_part q" using fmt(5) by simp
  note look = image_entries_lookup [OF _ data wf len(2,1)]
  obtain xo ro where xo: "flash_lookup ?E (bytes ''os-image'') = Some xo" "unat (fp_size xo) = ip_size po"
      "drop (0x1014 + unat (fp_base xo)) ?img = ip_data po @ ro"
      "0x1014 + unat (fp_base xo) + ip_size po \<le> length ?img" "length (ip_data po) = ip_size po"
    using look [OF parts(1)] by auto
  obtain xf rf where xf: "flash_lookup ?E (bytes ''file-system'') = Some xf" "unat (fp_size xf) = ip_size pf"
      "drop (0x1014 + unat (fp_base xf)) ?img = ip_data pf @ rf"
      "0x1014 + unat (fp_base xf) + ip_size pf \<le> length ?img" "length (ip_data pf) = ip_size pf"
    using look [OF parts(2)] by auto
  obtain xt rt where xt: "flash_lookup ?E (bytes ''partition-table'') = Some xt"
      "drop (0x1014 + unat (fp_base xt)) ?img = partition_table_bytes fl @ rt"
    using look [OF parts(3)] fl(1) by (auto simp: table_part_def)
  have t1: "read_partition_table env ?img 0x1014 (replicate MAX_PARTITIONS flash_null) 0 =
      Inr (0, ?E @ replicate (32 - length es) flash_null)"
    unfolding MAX_PARTITIONS_def using fmt env by (intro read_factory_table) simp_all
  have t2: "read_partition_table env ?img (0x1014 + unat (fp_base xt) + 4)
      (replicate MAX_PARTITIONS flash_null) 1 = Inr (0, fl @ replicate (32 - length fl) flash_null)"
    unfolding MAX_PARTITIONS_def using fl(2-5) env(1) by (intro read_flash_table [OF xt(2)]) simp_all
  note found = find_partition_eq [OF xo(1) plain] find_partition_eq [OF xf(1) plain]
    find_partition_eq [OF xt(1) plain] find_partition_eq [OF places(1) fl(3)]
    find_partition_eq [OF places(2) fl(3)]
  let ?so = "unat (fp_size eo)" and ?sf = "unat (fp_size ef)"
  have w1: "write_partition env ?img 0x1014 xo ([], 0) = (ip_data po, ip_size po)"
    using write_partition_copies [of xo "0x1014" ?img env "[]"] xo by (simp add: add.commute)
  have sub: "unat (fp_size eo - fp_size xo) = ?so - ip_size po" "unat (fp_size ef - fp_size xf) = ?sf - ip_size pf"
      "unat (fp_base ef - fp_base eo) = ?so"
    using places(3-5) xo(2) xf(2) by (simp_all add: unat_sub word_le_nat_alt)
  let ?c1 = "ip_data po @ replicate (?so - ip_size po) (0xff :: byte)"
  have l1: "length ?c1 = ?so" using xo(5) places(4) by simp
  have w2: "write_ff (ip_data po, ip_size po) (fp_size eo - fp_size xo) = Inr (?c1, ?so)"
    using write_ff_eq [of "ip_data po" "fp_size eo - fp_size xo"] xo(5) places(4,6) sub(1) by (simp add: Let_def)
  have w3: "write_partition env ?img 0x1014 xf (?c1, ?so) = (?c1 @ ip_data pf, ?so + ip_size pf)"
    using write_partition_copies [of xf "0x1014" ?img env ?c1] xf l1 by (simp add: add.commute)
  have l3: "length (?c1 @ ip_data pf) = ?so + ip_size pf" using l1 xf(5) by simp
  have w4: "write_ff (?c1 @ ip_data pf, ?so + ip_size pf) (fp_size ef - fp_size xf) =
      Inr ((?c1 @ ip_data pf) @ replicate (?sf - ip_size pf) 0xff, ?so + ?sf)"
    using write_ff_eq [of "?c1 @ ip_data pf" "fp_size ef - fp_size xf"] l3 places(5,7) sub(2) by (simp add: Let_def)
  show ?thesis
    unfolding convert_firmware_def env(4) option.sel Let_def t1 cbind_simps prod.case
      error_if_simps found t2 sub w1 w2 fseek_out_def fst_conv w3 w4
    using env(2,3) by auto
qed

end
