(* ===== verification/Roundtrip.thy ===== *)
theory Roundtrip
  imports Extract
begin

text \<open>
  What the readers of tools/tplink-safeloader/tplink-safeloader.c do with every input, and with
  the images its writers make: the safety of the table parser, the round trips through both
  tables and through a whole factory image, and the conversion against the sysupgrade build.
\<close>

section \<open>What the parser can return\<close>

text \<open>An entry the parser made: its name is a C string of at most 31 bytes.\<close>

definition parsed_from :: "flash_partition_entry list \<Rightarrow> flash_partition_entry list \<Rightarrow> bool" where
  "parsed_from old new \<longleftrightarrow> length new = length old \<and>
     (\<forall>e \<in> set new. e \<in> set old \<or> (\<exists>n. fp_name e = Some n \<and> length n \<le> 31 \<and> 0 \<notin> set n))"

definition no_ub :: "'a c \<Rightarrow> bool" where
  "no_ub r \<longleftrightarrow> (case r of Inr _ \<Rightarrow> True | Inl (ErrorExit _) \<Rightarrow> True | Inl _ \<Rightarrow> False)"

lemma no_ub_cases: "no_ub r \<longleftrightarrow> (\<exists>x. r = Inr x) \<or> (\<exists>m. r = Inl (ErrorExit m))"
  by (auto simp: no_ub_def split: sum.splits failure.splits)

lemma no_ub_simps [simp]: "no_ub (Inr x)" "no_ub (Inl (ErrorExit m))"
  by (simp_all add: no_ub_def)

lemma no_ub_cbind: "no_ub m \<Longrightarrow> (\<And>x. m = Inr x \<Longrightarrow> no_ub (f x)) \<Longrightarrow> no_ub (cbind m f)"
  by (auto simp: no_ub_cases)

lemma parsed_from_refl: "parsed_from es es"
  by (simp add: parsed_from_def)

lemma parsed_from_trans: "parsed_from a b \<Longrightarrow> parsed_from b c \<Longrightarrow> parsed_from a c"
  unfolding parsed_from_def by metis

lemma add_flash_partition_no_ub:
  "\<forall>n. malloc_ok env n \<Longrightarrow> no_ub (add_flash_partition env es name base sz)"
  by (induction es) (auto intro!: no_ub_cbind)

lemma add_flash_partition_parsed:
  "add_flash_partition env es name base sz = Inr es' \<Longrightarrow> length name \<le> 31 \<Longrightarrow> 0 \<notin> set name \<Longrightarrow>
     parsed_from es es'"
proof (induction es arbitrary: es')
  case (Cons e es)
  show ?case
  proof (cases "fp_name e = None \<and> fp_base e = 0 \<and> fp_size e = 0")
    case True
    then have "es' = \<lparr>fp_name = Some name, fp_base = ucast base, fp_size = ucast sz\<rparr> # es"
      using Cons.prems(1) by (auto simp: cbind_Inr_iff)
    then show ?thesis using Cons.prems by (simp add: parsed_from_def)
  next
    case False
    then obtain es1 where "add_flash_partition env es name base sz = Inr es1" "es' = e # es1"
      using Cons.prems(1) by (auto simp: cbind_Inr_iff)
    then show ?thesis using Cons.IH Cons.prems by (auto simp: parsed_from_def)
  qed
qed simp

lemma element_name_ok:
  assumes "element_name buf ptr e = Inr n"
  shows "length n \<le> 31 \<and> 0 \<notin> set n"
proof -
  let ?m = "min 31 (e - ptr)"
  obtain src where "mem_read buf ptr ?m = Inr src"
    using assms by (auto simp: element_name_def Let_def cbind_Inr_iff min_def split: if_splits)
  then have "ptr + ?m \<le> length buf" by (simp add: mem_read_Inr_iff)
  then have n: "n = takeWhile (\<lambda>b. b \<noteq> 0) (take ?m (drop ptr buf))"
    using assms element_name_inside by simp
  have "length n \<le> length (take ?m (drop ptr buf))" unfolding n by (rule length_takeWhile_le)
  then have "length n \<le> 31" by simp
  moreover have "0 \<notin> set n" unfolding n by (auto dest: set_takeWhileD)
  ultimately show ?thesis by simp
qed

text \<open>The buffer of the parser: ended by a zero byte.\<close>

definition ends_zero :: "byte list \<Rightarrow> bool" where
  "ends_zero buf \<longleftrightarrow> buf \<noteq> [] \<and> last buf = 0"

lemma ends_zero_string: "ends_zero buf \<Longrightarrow> ptr < length buf \<Longrightarrow> 0 \<in> set (drop ptr buf)"
  unfolding ends_zero_def by (metis drop_eq_Nil last_drop last_in_set leD)

lemma ends_zero_newline: "ends_zero buf \<Longrightarrow> memchr buf ptr 10 n = Some e \<Longrightarrow> e + 1 < length buf"
proof -
  assume z: "ends_zero buf" and e: "memchr buf ptr 10 n = Some e"
  then have "e < length buf" "buf ! e = 10" using memchr_bounds memchr_hit(1) by blast+
  moreover have "buf ! (length buf - 1) = 0" using z last_conv_nth [of buf] by (simp add: ends_zero_def)
  ultimately have "e \<noteq> length buf - 1" by auto
  then show ?thesis using \<open>e < length buf\<close> by linarith
qed

lemma part_elements_no_ub:
  assumes "\<forall>n. malloc_ok env n" "ends_zero buf" "e < length buf"
  shows "no_ub (part_elements env buf e is ptr name base entries)"
proof (induction "is" arbitrary: ptr name base entries)
  case (Cons i "is")
  show ?case
  proof (cases "e \<le> ptr")
    case False
    then have r: "memchr_at buf ptr 0x20 (e - ptr) = Inr (memchr buf ptr 0x20 (e - ptr))"
      using assms(3) by (intro memchr_at_inside) simp
    show ?thesis
    proof (cases "memchr buf ptr 0x20 (e - ptr)")
      case None
      then show ?thesis using False r by simp
    next
      case (Some k)
      then have k: "ptr \<le> k" "k < e" using memchr_bounds [OF Some] False by auto
      have "element_name buf ptr k = Inr (takeWhile (\<lambda>b. b \<noteq> 0) (take (min 31 (k - ptr)) (drop ptr buf)))"
        using k assms(3) by (intro element_name_inside) simp
      moreover have "0 \<in> set (drop ptr buf)" "0 \<in> set (drop (k + 1) buf)"
        using k assms(2,3) False by (auto intro!: ends_zero_string)
      ultimately show ?thesis
        using False r Some Cons.IH add_flash_partition_no_ub [OF assms(1)] by (auto intro!: no_ub_cbind)
    qed
  qed simp
qed simp

lemma part_elements_parsed:
  "part_elements env buf e is ptr name base entries = Inr (p, es) \<Longrightarrow>
     length name \<le> 31 \<Longrightarrow> 0 \<notin> set name \<Longrightarrow> parsed_from entries es"
proof (induction "is" arbitrary: ptr name base entries)
  case (Cons i "is")
  show ?case
  proof (cases "e \<le> ptr")
    case True
    then show ?thesis using Cons.prems by (simp add: parsed_from_refl)
  next
    case False
    then obtain k where k: "memchr_at buf ptr 0x20 (e - ptr) = Inr (Some k)"
      using Cons.prems(1) by (auto simp: cbind_Inr_iff split: option.splits)
    obtain q name' base' es' where r: "part_elements env buf e is q name' base' es' = Inr (p, es)"
        and name': "name' = name \<or> element_name buf ptr k = Inr name'"
        and es': "es' = entries \<or> (\<exists>sz. add_flash_partition env entries name base sz = Inr es')"
      using Cons.prems(1) False k by (auto simp: cbind_Inr_iff split: if_splits) blast
    have "length name' \<le> 31" "0 \<notin> set name'" using name' element_name_ok Cons.prems(2,3) by auto
    then have "parsed_from es' es" using Cons.IH [OF r] by simp
    moreover have "parsed_from entries es'"
      using es' add_flash_partition_parsed Cons.prems(2,3) parsed_from_refl by blast
    ultimately show ?thesis using parsed_from_trans by blast
  qed
qed (simp add: parsed_from_refl)

lemma read_parts_safe:
  assumes "\<forall>n. malloc_ok env n" "ends_zero buf"
  shows "no_ub (read_parts env ty buf ptr entries) \<and>
     (\<forall>es. read_parts env ty buf ptr entries = Inr es \<longrightarrow> parsed_from entries es)"
proof (induction "length buf - ptr" arbitrary: ptr entries rule: less_induct)
  case less
  let ?guard = "ptr + length (part_hdr ty) < length buf \<and>
      take (length (part_hdr ty)) (drop ptr buf) = part_hdr ty"
  show ?case
  proof (cases "?guard \<and> memchr buf ptr 10 (length buf - ptr) \<noteq> None")
    case False
    then have "read_parts env ty buf ptr entries = Inr entries"
      by (subst read_parts_unfold) (auto split: option.splits)
    then show ?thesis by (simp add: no_ub_cases parsed_from_refl)
  next
    case True
    then obtain e where e: "memchr buf ptr 10 (length buf - ptr) = Some e" and g: ?guard by auto
    have "e < length buf" using ends_zero_newline [OF assms(2) e] by simp
    note safe = part_elements_no_ub [OF assms this, of "[0, 1, 2, 3, 4]" ptr "[]" 0 entries]
    let ?r = "part_elements env buf e [0, 1, 2, 3, 4] ptr [] 0 entries"
    show ?thesis
    proof (cases ?r)
      case (Inl f)
      then have "read_parts env ty buf ptr entries = Inl f"
        using e g by (subst read_parts_unfold) simp
      then show ?thesis using safe Inl by (auto simp: no_ub_cases)
    next
      case (Inr q)
      obtain p es where q: "q = (p, es)" by (cases q)
      then have eq: "read_parts env ty buf ptr entries = read_parts env ty buf p es"
        using Inr e g by (subst read_parts_unfold) simp
      have "ptr < e" using newline_after_hdr g e by blast
      then have "ptr < p" using part_elements_advances Inr [unfolded q] by blast
      then have "length buf - p < length buf - ptr" using g by linarith
      moreover have "parsed_from entries es"
        using part_elements_parsed [OF Inr [unfolded q]] by simp
      ultimately show ?thesis
        unfolding eq using less.hyps [of p es] parsed_from_trans by blast
    qed
  qed
qed

lemma length_fread_into:
  "n \<le> length buf \<Longrightarrow> length (fst (fread_into buf content pos n)) = length buf"
  by (simp add: fread_into_def Let_def length_overwrite)

section \<open>Properties\<close>

text \<open>
  C3 (safety): on every file contents, offset, table type and entry list, reading a partition
  table ends; it returns 0 or 1 or ends the program with an error message, never by undefined
  behaviour; the number of entries stays, every new one has a terminated name of at most 31
  bytes, and with code 1 nothing has changed.
\<close>

theorem read_partition_table_safe:
  assumes "\<forall>n. malloc_ok env n"
  shows "(\<exists>rc es. read_partition_table env content off entries ty = Inr (rc, es) \<and>
       parsed_from entries es \<and> (rc = 0 \<or> rc = 1 \<and> es = entries)) \<or>
     (\<exists>m. read_partition_table env content off entries ty = Inl (ErrorExit m))"
proof -
  let ?raw = "fst (fread_into (uninit env ''buf'' 2048) content off 2048)"
  let ?buf = "?raw[2047 := 0]"
  have len: "length ?raw = 2048" using length_fread_into [of 2048 "uninit env ''buf'' 2048"] by simp
  then have w: "mem_write ?raw 2047 [0] = Inr ?buf" by (simp add: mem_write_def overwrite_one)
  have "?buf \<noteq> []" using len by (metis length_list_update list.size(3) zero_neq_numeral)
  then have "last ?buf = 0" using len by (simp add: last_conv_nth)
  then have z: "ends_zero ?buf" using \<open>?buf \<noteq> []\<close> by (simp add: ends_zero_def)
  have r: "mem_read ?buf 0 (length (part_hdr ty)) = Inr (take (length (part_hdr ty)) ?buf)"
    using len by (simp add: mem_read_def part_hdr_def)
  show ?thesis
    using read_parts_safe [OF assms z, of ty 0 entries] parsed_from_refl [of entries]
    by (auto simp: read_partition_table_def Let_def w r no_ub_cases error_if_def)
qed

theorem read_partition_table_safe_witness:
  "(\<exists>rc es. read_partition_table sample_env [1, 2, 3] 0 [flash_null] 0 = Inr (rc, es) \<and>
       parsed_from [flash_null] es \<and> (rc = 0 \<or> rc = 1 \<and> es = [flash_null])) \<or>
     (\<exists>m. read_partition_table sample_env [1, 2, 3] 0 [flash_null] 0 = Inl (ErrorExit m))"
  by (rule read_partition_table_safe) simp

lemma board_plain:
  assumes "b \<in> set board_table"
  shows "\<forall>p \<in> set (live_flash (di_partitions b)). plain_entry p"
proof -
  let ?ps = "live_flash (di_partitions b)"
  have "\<forall>p \<in> set ?ps. fp_name p \<noteq> None"
    by (auto simp: live_flash_def dest: set_takeWhileD)
  moreover have "\<forall>p \<in> set ?ps. wordlike (the (fp_name p)) \<and> length (the (fp_name p)) \<le> 20"
    using boards_layout_ok [OF assms] by (simp add: layout_ok_def Let_def)
  ultimately show ?thesis
    unfolding plain_entry_def plain_name_def by fastforce
qed

text \<open>
  C4 (roundtrip): for every board, the partition-table partition the tool makes parses back,
  behind its four bytes of magic, to exactly the partitions of the layout.
\<close>

theorem board_table_roundtrip:
  assumes "b \<in> set board_table" "make_partition_table env (di_partitions b) = Inr e"
    and "\<forall>n. malloc_ok env' n"
  shows "read_partition_table env' (ip_data e @ rest) 4 (replicate MAX_PARTITIONS flash_null) 1 =
     Inr (0, live_flash (di_partitions b) @
       replicate (MAX_PARTITIONS - length (live_flash (di_partitions b))) flash_null)"
proof -
  have "malloc_ok env 0x800"
    using assms(2) by (auto simp: make_partition_table_def cbind_Inr_iff alloc_Inr_iff)
  then have "ip_data e = partition_table_bytes (live_flash (di_partitions b))"
    using assms(2) board_table_fits [OF assms(1)] make_partition_table_ok by fastforce
  moreover have "length (live_flash (di_partitions b)) \<le> 32"
    using boards_layout_ok [OF assms(1)] by (simp add: layout_ok_def Let_def MAX_PARTITIONS_def)
  ultimately show ?thesis
    using read_flash_table [of 0 "ip_data e @ rest" "live_flash (di_partitions b)" rest env' 32]
      board_table_fits [OF assms(1)] board_plain [OF assms(1)] assms(3)
    by (simp add: MAX_PARTITIONS_def)
qed

theorem board_table_roundtrip_witness:
  "\<exists>e. make_partition_table sample_env (di_partitions board_CPE210) = Inr e \<and>
     read_partition_table sample_env (ip_data e @ [1, 2]) 4 (replicate MAX_PARTITIONS flash_null) 1 =
     Inr (0, live_flash (di_partitions board_CPE210) @
       replicate (MAX_PARTITIONS - length (live_flash (di_partitions board_CPE210))) flash_null)"
proof -
  have b: "board_CPE210 \<in> set board_table" by (simp add: board_table_def)
  obtain e where e: "make_partition_table sample_env (di_partitions board_CPE210) = Inr e"
    using make_partition_table_ok [of sample_env "di_partitions board_CPE210"] board_table_fits [OF b] by auto
  then show ?thesis using board_table_roundtrip [OF b e, of sample_env "[1, 2]"] by auto
qed

text \<open>
  C1 (roundtrip): extracting a factory image the tool made gives, for every partition put in,
  a file of its name with exactly its data, in order.
\<close>

theorem factory_extract_roundtrip:
  assumes made: "generate_factory_image env info parts = Inr img" "\<forall>n. malloc_ok env n"
      "terminated_flash (di_partitions info)" "terminated_parts parts" "live_parts parts \<noteq> []"
      "\<forall>p \<in> set (live_parts parts). wf_part p \<and> plain_part p" "vendor_fits info"
      "0x1814 + total_size (live_parts parts) < 2 ^ 32" "length (live_parts parts) \<le> 16"
    and reader: "\<forall>n. malloc_ok env' n" "\<forall>f. can_write env' f" "stat_dir dir = Some True"
      "stat_size env' inp = Some n" "open_read env' inp = Some img"
  shows "extract_firmware env' stat_dir inp dir =
     Inr (map (\<lambda>p. (out_path dir (the (ip_name p)), ip_data p)) (live_parts parts))"
proof -
  have c: "(\<forall>p \<in> set (live_parts parts).
       room_in (live_flash (di_partitions info)) (the (ip_name p)) (ip_size p)) \<and>
     length (image_text 0x800 (live_parts parts)) < 0x800"
    using generate_factory_image_checked [OF made(1) _ made(3,4,7)] made(2) by blast
  then have "img = factory_image info (live_parts parts)"
    using made generate_factory_image_ok [OF _ made(3-5)] by auto
  then show ?thesis
    using made reader c by (intro extract_factory_image) simp_all
qed

definition reader_env :: "byte list \<Rightarrow> c_env" where
  "reader_env img = sample_env\<lparr>stat_size := (\<lambda>_. Some (length img)), open_read := (\<lambda>_. Some img)\<rparr>"

lemma reader_env_simps [simp]:
  "malloc_ok (reader_env img) n" "can_write (reader_env img) f"
  "stat_size (reader_env img) f = Some (length img)" "open_read (reader_env img) f = Some img"
  by (simp_all add: reader_env_def)

lemma sample_plain: "\<forall>p \<in> set (live_parts sample_parts). wf_part p \<and> plain_part p"
  by (simp add: sample_part_def wf_part_def plain_part_def plain_name_def wordlike_bytes)

lemma sample_text_short: "length (image_text 0x800 (live_parts sample_parts)) < 0x800"
proof -
  have "\<forall>p \<in> set (live_parts sample_parts). length (the (ip_name p)) \<le> 20"
    by (simp add: sample_part_def)
  then have "length (image_text 0x800 (live_parts sample_parts)) \<le> (20 + 44) * 2"
    using length_image_text [of "live_parts sample_parts" 20 "0x800"] by simp
  then show ?thesis by simp
qed

theorem factory_extract_roundtrip_witness:
  "\<exists>img. generate_factory_image sample_env sample_info sample_parts = Inr img \<and>
     extract_firmware (reader_env img) (\<lambda>_. Some True) (bytes ''f'') (bytes ''d'') =
     Inr [(bytes ''d/b'', [1, 2, 3]), (bytes ''d/a'', [4])]"
proof -
  have v: "vendor_fits sample_info" by (simp add: vendor_fits_def sample_info_def)
  have t: "0x1814 + total_size (live_parts sample_parts) < 2 ^ 32" by (simp add: sample_part_def)
  obtain img where img: "generate_factory_image sample_env sample_info sample_parts = Inr img"
    using generate_factory_image_ok [of sample_env sample_parts sample_info] sample_rooms sample_text_short v t
    by auto
  have "extract_firmware (reader_env img) (\<lambda>_. Some True) (bytes ''f'') (bytes ''d'') =
      Inr (map (\<lambda>p. (out_path (bytes ''d'') (the (ip_name p)), ip_data p)) (live_parts sample_parts))"
    by (rule factory_extract_roundtrip [OF img _ _ _ _ sample_plain v t]) simp_all
  then show ?thesis
    using img by (auto simp: sample_part_def out_path_def PATH_MAX_def simp flip: bytes_append)
qed

lemma full_parts_plain:
  assumes "extra_kind info \<noteq> None"
  shows "\<forall>p \<in> set (full_parts env sde rv info ck cr cg). plain_part p"
  by (simp add: full_parts_def core_parts_def plain_part_def extra_part_name assms plain_name_def wordlike_bytes)

text \<open>
  C2 (equivalence): converting the factory image of a build for ARCHER-C7-V4 gives the
  sysupgrade image of the same build, followed by 0xff up to the size of the file-system
  partition in flash.
\<close>

theorem convert_factory_is_sysupgrade:
  assumes build: "build_env env k ck r cr g cg" "info = board_ARCHER_C7_V4"
      "align_64k (length ck) + length cr \<le> 0xa00000" "length cg \<le> 0x4c0000" "can_write env out"
    and fac: "build_image env sde out k r g rv j False info = Inr fac"
    and sys: "build_image env sde out k r g rv j True info = Inr sys"
    and reader: "\<forall>n. malloc_ok env' n" "\<forall>f. can_write env' f"
      "stat_size env' inp = Some n" "open_read env' inp = Some fac"
  shows "convert_firmware env' inp outp = Inr (sys @ replicate (0x4c0000 - length cg) 0xff)"
proof -
  let ?es = "full_parts env sde rv info ck cr cg" and ?fl = "live_flash (di_partitions info)"
  let ?eo = "flash_part ''os-image'' 0x40000 0xa00000" and ?ef = "flash_part ''file-system'' 0xa40000 0x4c0000"
  have ex: "info \<in> set extra_boards" using build(2) by (simp add: extra_boards_def)
  have tab: "info \<in> set board_table" using ex by (rule extra_boards_subset)
  have kind: "extra_kind info \<noteq> None" using ex tab extra_kind_iff by blast
  have big: "length ck + 0xffff < 2 ^ 64" using build(1) by (simp add: build_env_def)
  have f: "fac = factory_image info ?es"
    using factory_build_archer_c7_v4 [OF build] fac by (simp add: full_parts_def core_parts_def)
  have fits: "os_fits info ck cr" "fs_fits info cg"
    using build(2-4) by (simp_all add: os_fits_def fs_fits_def board_ARCHER_C7_V4_def room_in_def
        flash_lookup_def inj_bytes)
  have "adjacent_pair info ?eo ?ef"
    unfolding build(2) by (rule adjacent_pairI [where n = 2]) (simp_all add: board_ARCHER_C7_V4_def)
  then have s: "sys = ip_data (os_part env ck cr) @ replicate (0xa00000 - ip_size (os_part env ck cr)) 0xff @ cg"
    using build_sysupgrade_extra [OF build(1) ex fits build(5)] sys by (simp add: place_def)
  have wf: "\<forall>p \<in> set ?es. wf_part p"
    using parts_wf table_part_wf [OF tab] os_part_wf [OF big] by (simp add: full_parts_def core_parts_def)
  have sizes: "ip_size (extra_part info) \<le> 11" "ip_size (version_part env sde rv info) = 25"
      "ip_size (support_part info) \<le> 0x1000"
    using build(2) by (simp_all add: extra_part_def version_part_def length_version_bytes support_part_def
        board_ARCHER_C7_V4_def lines_with_def lf_def split: option.splits)
  then have total: "0x1814 + total_size ?es < 2 ^ 32"
    using build(3,4) by (simp add: full_parts_def core_parts_def table_part_def os_part_def
        identity_part_def sysconf_part_def fs_part_def)
  have imgs: "image_lookup ?es (bytes ''os-image'') = Some (os_part env ck cr)"
      "image_lookup ?es (bytes ''file-system'') = Some (fs_part cg)"
      "image_lookup ?es (bytes ''partition-table'') = Some (table_part info)"
    by (simp_all add: full_parts_def core_parts_def image_lookup_def extra_part_name inj_bytes)
  have flash: "flash_lookup ?fl (bytes ''os-image'') = Some ?eo" "flash_lookup ?fl (bytes ''file-system'') = Some ?ef"
    using build(2) by (simp_all add: board_ARCHER_C7_V4_def flash_lookup_def inj_bytes)
  have few: "length ?es \<le> 32" "length ?fl \<le> 32"
    using build(2) by (simp_all add: full_parts_def core_parts_def board_ARCHER_C7_V4_def)
  have "convert_firmware env' inp outp =
      Inr (ip_data (os_part env ck cr) @ replicate (unat (fp_size ?eo) - ip_size (os_part env ck cr)) 0xff @
        ip_data (fs_part cg) @ replicate (unat (fp_size ?ef) - ip_size (fs_part cg)) 0xff)"
    using build(3,4) wf full_parts_plain [OF kind] reader f full_text_short [OF kind]
    by (intro convert_factory_image [OF board_vendor_fits [OF tab] _ full_parts_ne few(1) _ total _ _ _ _ refl
          board_table_fits(1) [OF tab] board_plain [OF tab] board_table_fits(3) [OF tab] few(2) imgs flash])
      (simp_all add: os_part_def fs_part_def)
  then show ?thesis by (simp add: s fs_part_def)
qed

theorem convert_factory_is_sysupgrade_witness:
  "\<exists>fac sys. build_image sample_env 0 (bytes ''o'') (bytes ''k'') (bytes ''r'') (bytes ''g'') 0 False False
       board_ARCHER_C7_V4 = Inr fac \<and>
     build_image sample_env 0 (bytes ''o'') (bytes ''k'') (bytes ''r'') (bytes ''g'') 0 False True
       board_ARCHER_C7_V4 = Inr sys \<and>
     convert_firmware (reader_env fac) (bytes ''f'') (bytes ''s'') = Inr (sys @ replicate 0x4bffff 0xff)"
proof -
  let ?b = board_ARCHER_C7_V4
  let ?build = "\<lambda>s. build_image sample_env 0 (bytes ''o'') (bytes ''k'') (bytes ''r'') (bytes ''g'') 0 False s ?b"
  have ex: "?b \<in> set extra_boards" by (simp add: extra_boards_def)
  have sizes: "align_64k (length [1, 2, 3 :: byte]) + length [4, 5 :: byte] \<le> 0xa00000"
      "length [6 :: byte] \<le> 0x4c0000"
    by (simp_all add: sample_align)
  have "os_fits ?b [1, 2, 3] [4, 5]" "fs_fits ?b [6]"
    by (simp_all add: os_fits_def fs_fits_def board_ARCHER_C7_V4_def sample_align room_in_def
        flash_lookup_def inj_bytes)
  then obtain sys where sys: "?build True = Inr sys"
    using extra_boards_adjacent [OF ex] build_sysupgrade_extra [OF sample_build_env ex] by fastforce
  have fits: "0x1814 + total_size (full_parts sample_env 0 0 ?b [1, 2, 3] [4, 5] [6]) < 2 ^ 32"
    by (simp add: full_parts_def core_parts_def table_part_def os_part_def extra_part_def sample_align
        identity_part_def sysconf_part_def fs_part_def version_part_def length_version_bytes support_part_def
        board_ARCHER_C7_V4_def lines_with_def lf_def extra_kind_length split: option.splits)
  obtain fac where fac: "?build False = Inr fac"
    using build_factory_c7v4 [OF sample_build_env refl \<open>os_fits ?b [1, 2, 3] [4, 5]\<close> \<open>fs_fits ?b [6]\<close> _ fits] by fastforce
  have "convert_firmware (reader_env fac) (bytes ''f'') (bytes ''s'') =
      Inr (sys @ replicate (0x4c0000 - length [6 :: byte]) 0xff)"
    by (rule convert_factory_is_sysupgrade [OF sample_build_env refl sizes _ fac sys]) simp_all
  then show ?thesis using fac sys by auto
qed

text \<open>
  C6 (bounds): \<open>write_ff\<close> appends exactly the number of 0xff bytes it is asked for when that is at
  most 2 GiB. Beyond, its \<open>int\<close> counter becomes negative after 2 GiB, which ends the loop and
  the function: no more than 2 GiB are ever written, and nothing outside its buffer is read.
\<close>

theorem write_ff_exact:
  "write_ff (c, length c) sz =
     (if unat sz \<le> 2 ^ 31 then Inr (c @ replicate (unat sz) 0xff, length c + unat sz)
      else Inr (c @ replicate (2 ^ 31) 0xff, length c + 2 ^ 31))"
  unfolding write_ff_eq Let_def min_def by (cases "unat sz \<le> 2 ^ 31") (simp_all only: if_True if_False)

text \<open>
  An image table without an os-image entry, and with a free slot, does not give
  the message for it: the search dereferences the null name behind the last entry.
\<close>

lemma convert_missing_partition:
  assumes "read_partition_table env content 0x1014 (replicate MAX_PARTITIONS flash_null) 0 =
       Inr (0, es @ flash_null # rest)"
    and "\<forall>e \<in> set es. plain_entry e" "flash_lookup es (bytes ''os-image'') = None"
    and "stat_size env inp = Some n" "open_read env inp = Some content" "can_write env outp"
  shows "convert_firmware env inp outp = Inl Undefined"
  using assms find_partition_null [OF assms(3,2), of rest]
  by (simp add: convert_firmware_def)

lemma write_chunks_length:
  assumes "offset \<le> sz" "length buf = 4096"
  shows "\<exists>buf' pos' k d. write_chunks content sz buf pos offset (c, length c) =
      (buf', pos', offset + k, (c @ d, length (c @ d))) \<and>
     length buf' = 4096 \<and> length d = k \<and> offset + k \<le> sz \<and> sz < offset + k + 4096"
  using assms
proof (induction "sz - offset" arbitrary: buf pos offset c rule: less_induct)
  case less
  show ?case
  proof (cases "4096 + offset \<le> sz")
    case False
    then show ?thesis using less.prems by (subst write_chunks.simps) simp
  next
    case True
    obtain buf1 pos1 where b: "fread_into buf content pos 4096 = (buf1, pos1)" by fastforce
    then have len: "length buf1 = 4096"
      using length_fread_into [of 4096 buf content pos] less.prems(2) by simp
    have "sz - (offset + 4096) < sz - offset" "offset + 4096 \<le> sz" using True by linarith+
    then obtain buf' pos' k d where k: "write_chunks content sz buf1 pos1 (offset + 4096)
          (c @ buf1, length (c @ buf1)) =
        (buf', pos', offset + 4096 + k, ((c @ buf1) @ d, length ((c @ buf1) @ d)))"
        "length buf' = 4096" "length d = k" "offset + 4096 + k \<le> sz" "sz < offset + 4096 + k + 4096"
      using less.hyps [of "offset + 4096" buf1 pos1 "c @ buf1"] len by blast
    have "write_chunks content sz buf pos offset (c, length c) =
        (buf', pos', offset + (4096 + k), (c @ buf1 @ d, length (c @ buf1 @ d)))"
      using True b k(1) by (subst write_chunks.simps) (simp add: fwrite_to_append add.assoc)
    moreover have "length (buf1 @ d) = 4096 + k" using len k(3) by simp
    ultimately show ?thesis
      using k(2,4,5) by (intro exI [of _ buf'] exI [of _ pos'] exI [of _ "4096 + k"] exI [of _ "buf1 @ d"]) simp
  qed
qed

text \<open>
  C5 (bounds): \<open>write_partition\<close> always appends exactly the size of the entry, also when
  the input ends before it: a truncated firmware file is not noticed.
\<close>

theorem write_partition_length:
  "\<exists>d. write_partition env content off e (c, length c) = (c @ d, length c + unat (fp_size e)) \<and>
     length d = unat (fp_size e)"
proof -
  let ?sz = "unat (fp_size e)"
  obtain buf pos k d where k: "write_chunks content ?sz (uninit env ''buf'' 4096)
      (unat (fp_base e) + off) 0 (c, length c) = (buf, pos, k, (c @ d, length (c @ d)))"
      "length buf = 4096" "length d = k" "k \<le> ?sz" "?sz < k + 4096"
    using write_chunks_length [of 0 ?sz "uninit env ''buf'' 4096" content "unat (fp_base e) + off" c] by auto
  show ?thesis
  proof (cases "k < ?sz")
    case False
    then show ?thesis using k by (simp add: write_partition_def)
  next
    case True
    obtain buf1 pos1 where b: "fread_into buf content pos (?sz - k) = (buf1, pos1)" by fastforce
    then have "length buf1 = 4096"
      using length_fread_into [of "?sz - k" buf content pos] k by simp
    then have "length (take (?sz - k) buf1) = ?sz - k" using k(5) by simp
    moreover from this have "fwrite_to (c @ d, length c + k) (take (?sz - k) buf1) =
        (c @ d @ take (?sz - k) buf1, length c + ?sz)"
      using fwrite_to_append [of "c @ d" "take (?sz - k) buf1"] k(3) True by simp
    ultimately show ?thesis
      using True k b by (intro exI [of _ "d @ take (?sz - k) buf1"]) (simp add: write_partition_def Let_def)
  qed
qed

end
