(* ===== verification/Safeloader.thy ===== *)
theory Safeloader
  imports Roundtrip
begin

text \<open>
  The command line of tools/tplink-safeloader/tplink-safeloader.c: \<open>set_source_date_epoch\<close>
  and \<open>main\<close>. The results of the calls of \<open>getopt\<close>, in order, are the input: an option
  letter of the option string with its argument, or a question mark for anything else. How a
  C library groups and permutes words is not part of the model.
\<close>

section \<open>The build date\<close>

text \<open>
  \<open>strtoull(s, &end, 10)\<close>: value, whether \<open>errno\<close> is set to \<open>ERANGE\<close>, and the bytes
  from \<open>end\<close> on, which are all of them when there is no digit.
\<close>

definition strtoull10 :: "byte list \<Rightarrow> u64 \<times> bool \<times> byte list" where
  "strtoull10 s =
     (let s1 = dropWhile is_space s;
          neg = (s1 \<noteq> [] \<and> hd s1 = 45);
          s2 = (if s1 \<noteq> [] \<and> (hd s1 = 45 \<or> hd s1 = 43) then tl s1 else s1);
          ds = takeWhile is_digit s2;
          v = dec_value ds
      in if ds = [] then (0, False, s)
         else if v \<ge> 2 ^ 64 then (- 1, True, dropWhile is_digit s2)
         else (if neg then - of_nat v else of_nat v, False, dropWhile is_digit s2))"

text \<open>The static variable after the call, from the environment variable; -1 is its initial value.\<close>

definition set_source_date_epoch :: "cstr option \<Rightarrow> int c" where
  "set_source_date_epoch var =
     (case var of
        None \<Rightarrow> Inr (-1)
      | Some s \<Rightarrow>
          if s = [] then Inr (-1)
          else let (v, range, rest) = strtoull10 s
               in if range \<or> rest \<noteq> [] then Inl (ErrorExit ''Invalid SOURCE_DATE_EPOCH'')
                  else Inr (sint v))"

section \<open>Options\<close>

datatype opt = Opt char cstr | BadOpt

record main_opts =
  o_board :: "cstr option"
  o_kernel :: "cstr option"
  o_rootfs :: "cstr option"
  o_genesis :: "cstr option"
  o_output :: "cstr option"
  o_extract :: "cstr option"
  o_dir :: "cstr option"
  o_convert :: "cstr option"
  o_jffs2 :: bool
  o_sysupgrade :: bool
  o_rev :: u32

definition init_opts :: main_opts where
  "init_opts = \<lparr>o_board = None, o_kernel = None, o_rootfs = None, o_genesis = None, o_output = None,
     o_extract = None, o_dir = None, o_convert = None, o_jffs2 = False, o_sysupgrade = False, o_rev = 0\<rparr>"

text \<open>\<open>sscanf(optarg, "r%u", &rev)\<close>: the number is left alone when it does not match.\<close>

definition scan_rev :: "cstr \<Rightarrow> u32 \<Rightarrow> u32" where
  "scan_rev s rv =
     (if s \<noteq> [] \<and> hd s = 114 \<and> snd (snd (strtoull10 (tl s))) \<noteq> tl s
      then ucast (fst (strtoull10 (tl s))) else rv)"

text \<open>What \<open>main\<close> ends with: the usage text and a status, or the work it did.\<close>

datatype main_result =
    Usage int
  | Extracted "(cstr \<times> byte list) list"
  | Converted cstr "byte list"
  | Built cstr "byte list"

text \<open>The switch over one option: new options, or the status to return with after the usage.\<close>

fun option_step :: "opt \<Rightarrow> main_opts \<Rightarrow> int + main_opts" where
  "option_step BadOpt st = Inl 1"
| "option_step (Opt ch arg) st =
     (if ch = CHR ''B'' then Inr (st\<lparr>o_board := Some arg\<rparr>)
      else if ch = CHR ''k'' then Inr (st\<lparr>o_kernel := Some arg\<rparr>)
      else if ch = CHR ''r'' then Inr (st\<lparr>o_rootfs := Some arg\<rparr>)
      else if ch = CHR ''g'' then Inr (st\<lparr>o_genesis := Some arg\<rparr>)
      else if ch = CHR ''o'' then Inr (st\<lparr>o_output := Some arg\<rparr>)
      else if ch = CHR ''V'' then Inr (st\<lparr>o_rev := scan_rev arg (o_rev st)\<rparr>)
      else if ch = CHR ''j'' then Inr (st\<lparr>o_jffs2 := True\<rparr>)
      else if ch = CHR ''S'' then Inr (st\<lparr>o_sysupgrade := True\<rparr>)
      else if ch = CHR ''h'' then Inl 0
      else if ch = CHR ''d'' then Inr (st\<lparr>o_dir := Some arg\<rparr>)
      else if ch = CHR ''x'' then Inr (st\<lparr>o_extract := Some arg\<rparr>)
      else if ch = CHR ''z'' then Inr (st\<lparr>o_convert := Some arg\<rparr>)
      else Inl 1)"

fun read_options :: "opt list \<Rightarrow> main_opts \<Rightarrow> int + main_opts" where
  "read_options [] st = Inr st"
| "read_options (x # xs) st =
     (case option_step x st of Inl r \<Rightarrow> Inl r | Inr st' \<Rightarrow> read_options xs st')"

definition required :: "'a option \<Rightarrow> string \<Rightarrow> 'a c" where
  "required x msg = (case x of None \<Rightarrow> Inl (ErrorExit msg) | Some v \<Rightarrow> Inr v)"

definition run_build :: "c_env \<Rightarrow> int \<Rightarrow> main_opts \<Rightarrow> main_result c" where
  "run_build env sde st =
     cbind (required (o_board st) ''no board has been specified'') (\<lambda>board.
     cbind (required (o_kernel st) ''no kernel image has been specified'') (\<lambda>kernel.
     cbind (required (o_rootfs st) ''no rootfs image has been specified'') (\<lambda>rootfs.
     cbind (required (o_genesis st) ''no genesis image has been specified'') (\<lambda>genesis.
     cbind (required (o_output st) ''no output filename has been specified'') (\<lambda>out.
     cbind (find_board board) (\<lambda>found.
     cbind (required found ''unsupported board'') (\<lambda>info.
     cbind (build_image env sde out kernel rootfs genesis (o_rev st) (o_jffs2 st) (o_sysupgrade st) info)
       (\<lambda>img. Inr (Built out img)))))))))"

definition run_main :: "c_env \<Rightarrow> (cstr \<Rightarrow> bool option) \<Rightarrow> int \<Rightarrow> main_opts \<Rightarrow> main_result c" where
  "run_main env stat_dir sde st =
     (if o_extract st \<noteq> None \<or> o_dir st \<noteq> None then
        cbind (required (o_extract st) ''No factory/oem image given via -x <file>. Output directory is only valid with -x'') (\<lambda>x.
        cbind (required (o_dir st) ''Can not extract an image without output directory. Use -d <dir>'') (\<lambda>d.
        cbind (extract_firmware env stat_dir x d) (\<lambda>fs. Inr (Extracted fs))))
      else case o_convert st of
        Some z \<Rightarrow>
          cbind (required (o_output st) ''Can not convert a factory/oem image into sysupgrade image without output file. Use -o <file>'') (\<lambda>out.
          cbind (convert_firmware env z out) (\<lambda>img. Inr (Converted out img)))
      | None \<Rightarrow> run_build env sde st)"

definition safeloader_main ::
  "c_env \<Rightarrow> (cstr \<Rightarrow> bool option) \<Rightarrow> cstr option \<Rightarrow> opt list \<Rightarrow> main_result c" where
  "safeloader_main env stat_dir epoch_var opts =
     cbind (set_source_date_epoch epoch_var) (\<lambda>sde.
     case read_options opts init_opts of
       Inl status \<Rightarrow> Inr (Usage status)
     | Inr st \<Rightarrow> run_main env stat_dir sde st)"

section \<open>Lemmas\<close>

lemma required_iff [simp]:
  "required x msg = Inr v \<longleftrightarrow> x = Some v"
  "required x msg = Inl e \<longleftrightarrow> x = None \<and> e = ErrorExit msg"
  by (auto simp: required_def split: option.splits)

lemma required_Some [simp]: "required (Some v) msg = Inr v"
  by (simp add: required_def)

lemma read_options_append:
  "read_options (xs @ ys) st =
     (case read_options xs st of Inl r \<Rightarrow> Inl r | Inr st' \<Rightarrow> read_options ys st')"
  by (induction xs arbitrary: st) (auto split: sum.splits)

text \<open>The two option states that differ in the jffs2 flag only.\<close>

definition same_but_jffs2 :: "int + main_opts \<Rightarrow> int + main_opts \<Rightarrow> bool" where
  "same_but_jffs2 a b \<longleftrightarrow>
     (case (a, b) of
        (Inl x, Inl y) \<Rightarrow> x = y
      | (Inr s, Inr t) \<Rightarrow> s\<lparr>o_jffs2 := False\<rparr> = t\<lparr>o_jffs2 := False\<rparr>
      | _ \<Rightarrow> False)"

lemma option_step_jffs2:
  "s\<lparr>o_jffs2 := False\<rparr> = t\<lparr>o_jffs2 := False\<rparr> \<Longrightarrow>
     same_but_jffs2 (option_step x s) (option_step x t)"
proof -
  assume eq: "s\<lparr>o_jffs2 := False\<rparr> = t\<lparr>o_jffs2 := False\<rparr>"
  have "\<exists>j. s = t\<lparr>o_jffs2 := j\<rparr>"
    using eq by (cases s; cases t) auto
  then obtain j where "s = t\<lparr>o_jffs2 := j\<rparr>" by blast
  then show ?thesis
    by (cases x) (simp_all add: same_but_jffs2_def)
qed

lemma read_options_jffs2:
  "s\<lparr>o_jffs2 := False\<rparr> = t\<lparr>o_jffs2 := False\<rparr> \<Longrightarrow>
     same_but_jffs2 (read_options xs s) (read_options xs t)"
proof (induction xs arbitrary: s t)
  case (Cons x xs)
  note step = option_step_jffs2 [OF Cons.prems, of x]
  show ?case
  proof (cases "option_step x s")
    case (Inl r)
    then have "option_step x t = Inl r" using step by (auto simp: same_but_jffs2_def split: sum.splits)
    then show ?thesis using Inl by (simp add: same_but_jffs2_def)
  next
    case (Inr s')
    then obtain t' where "option_step x t = Inr t'" "s'\<lparr>o_jffs2 := False\<rparr> = t'\<lparr>o_jffs2 := False\<rparr>"
      using step by (auto simp: same_but_jffs2_def split: sum.splits)
    then show ?thesis using Inr Cons.IH by simp
  qed
qed (simp add: same_but_jffs2_def)

lemma run_main_jffs2: "run_main env d sde (st\<lparr>o_jffs2 := j\<rparr>) = run_main env d sde st"
  by (simp add: run_main_def run_build_def build_image_def split: option.splits)

lemma run_main_same:
  assumes "s\<lparr>o_jffs2 := False\<rparr> = t\<lparr>o_jffs2 := False\<rparr>"
  shows "run_main env d sde s = run_main env d sde t"
  using run_main_jffs2 [where st = s and j = False] run_main_jffs2 [where st = t and j = False] assms
  by metis

section \<open>Properties\<close>

text \<open>
  C40 (functional): the option -j never changes what the program does: with it or without it at
  any place of the command line, every run ends the same way with the same output.
\<close>

theorem option_j_no_effect:
  "safeloader_main env stat_dir var (xs @ Opt (CHR ''j'') a # ys) =
   safeloader_main env stat_dir var (xs @ ys)"
proof -
  have "same_but_jffs2 (read_options (xs @ Opt (CHR ''j'') a # ys) init_opts)
      (read_options (xs @ ys) init_opts)"
  proof (cases "read_options xs init_opts")
    case (Inr st)
    have "same_but_jffs2 (read_options ys (st\<lparr>o_jffs2 := True\<rparr>)) (read_options ys st)"
      by (rule read_options_jffs2) simp
    then show ?thesis using Inr by (simp add: read_options_append)
  qed (simp add: read_options_append same_but_jffs2_def)
  then show ?thesis
    unfolding safeloader_main_def same_but_jffs2_def
    by (auto split: sum.splits intro!: arg_cong2 [where f = cbind] run_main_same)
qed

text \<open>
  A run that builds an image has been given a board of the table, all four input
  and output files, and no extraction or conversion; the image is what \<open>build_image\<close> made.
\<close>

lemma main_builds_only_complete:
  assumes "safeloader_main env stat_dir var opts = Inr (Built out img)"
  shows "\<exists>st sde b k r g i. read_options opts init_opts = Inr st \<and>
     set_source_date_epoch var = Inr sde \<and>
     o_board st = Some i \<and> find_board i = Inr (Some b) \<and> b \<in> set board_table \<and>
     o_kernel st = Some k \<and> o_rootfs st = Some r \<and> o_genesis st = Some g \<and> o_output st = Some out \<and>
     o_extract st = None \<and> o_dir st = None \<and> o_convert st = None \<and>
     build_image env sde out k r g (o_rev st) False (o_sysupgrade st) b = Inr img"
proof -
  obtain sde st where a: "set_source_date_epoch var = Inr sde" "read_options opts init_opts = Inr st"
      "run_main env stat_dir sde st = Inr (Built out img)"
    using assms by (cases "read_options opts init_opts") (auto simp: safeloader_main_def cbind_Inr_iff)
  then have b: "o_extract st = None" "o_dir st = None" "o_convert st = None"
      "run_build env sde st = Inr (Built out img)"
    by (auto simp: run_main_def cbind_Inr_iff split: if_splits option.splits)
  obtain i k r g f where c: "o_board st = Some i" "o_kernel st = Some k" "o_rootfs st = Some r"
      "o_genesis st = Some g" "find_board i = Inr (Some f)" "o_output st = Some out"
      "build_image env sde out k r g (o_rev st) (o_jffs2 st) (o_sysupgrade st) f = Inr img"
    using b(4) by (auto simp: run_build_def cbind_Inr_iff)
  then have "build_image env sde out k r g (o_rev st) False (o_sysupgrade st) f = Inr img"
    by (simp add: build_image_def)
  then show ?thesis
    using a(1,2) b(1-3) c find_board_Some_iff by blast
qed

end
