(* ===== verification/PatchCmdline.thy ===== *)
theory PatchCmdline
  imports CFormat
begin

text \<open>
  tools/patch-cmdline/patch-cmdline.c: the whole of \<open>main\<close>. The kernel image is a file
  mapped shared into memory: the mapping is whole pages of 4096 bytes, the bytes between the end
  of the file and the end of its last page read as zero and are not written back, an access
  behind that page or behind the mapping is fatal. The result is the exit status and what the
  file holds then.
\<close>

section \<open>Constants and numbers\<close>

definition SEARCH_SPACE :: u32 where "SEARCH_SPACE = 16 * 1024"
definition CMDLINE_MAX :: nat where "CMDLINE_MAX = 512"

text \<open>\<open>atoi\<close>: undefined when the number is not an \<open>int\<close>.\<close>

definition c_atoi :: "byte list \<Rightarrow> int c" where
  "c_atoi s =
     (let s1 = dropWhile is_space s;
          neg = (s1 \<noteq> [] \<and> hd s1 = 45);
          s2 = (if s1 \<noteq> [] \<and> (hd s1 = 45 \<or> hd s1 = 43) then tl s1 else s1);
          n = int (dec_value (takeWhile is_digit s2));
          v = (if neg then - n else n)
      in cbind (defined_if (- (2 ^ 31) \<le> v \<and> v < 2 ^ 31)) (\<lambda>_. Inr v))"

section \<open>The mapping\<close>

definition page_up :: "nat \<Rightarrow> nat" where
  "page_up n = (n + 4095) div 4096 * 4096"

text \<open>What a mapping of \<open>n\<close> bytes of the file shows.\<close>

definition map_file :: "byte list \<Rightarrow> nat \<Rightarrow> byte list" where
  "map_file content n =
     take (page_up n) (content @ replicate (page_up (length content) - length content) 0)"

text \<open>The file after the mapped memory has been written.\<close>

definition unmap_file :: "byte list \<Rightarrow> byte list \<Rightarrow> byte list" where
  "unmap_file content mem = take (length content) mem @ drop (length mem) content"

section \<open>The program\<close>

definition marker :: "byte list" where
  "marker = bytes ''CMDLINE:''"

text \<open>The loop over the search space, in steps of four bytes.\<close>

function find_marker :: "byte list \<Rightarrow> nat \<Rightarrow> nat \<Rightarrow> nat option c" where
  "find_marker mem search_space p =
     (if p < search_space then
        cbind (mem_read mem p 8) (\<lambda>w.
        if w = marker then Inr (Some p) else find_marker mem search_space (p + 4))
      else Inr None)"
  by pat_completeness auto
termination
  by (relation "measure (\<lambda>(mem, search_space, p). search_space - p)") auto

declare find_marker.simps [simp del]

text \<open>
  The environment: the file if it opens for reading and writing, and whether a mapping of a
  length is granted; a length of zero never is.
\<close>

definition patch_file ::
  "byte list option \<Rightarrow> (nat \<Rightarrow> bool) \<Rightarrow> cstr \<Rightarrow> u32 \<Rightarrow> (int \<times> byte list option) c" where
  "patch_file file mmap_ok cmdline search_space =
     (case file of
        None \<Rightarrow> Inr (-1, file)
      | Some content \<Rightarrow>
          let n = unat (search_space + of_nat CMDLINE_MAX) in
          if n = 0 \<or> \<not> mmap_ok n then Inr (-1, file)
          else
            (let mem = map_file content n in
             cbind (find_marker mem (unat search_space) 0) (\<lambda>found.
             case found of
               None \<Rightarrow> Inr (-1, file)
             | Some q \<Rightarrow>
                 let p = q + 8 in
                 cbind (mem_write mem p (replicate (CMDLINE_MAX - 8) 0)) (\<lambda>mem1.
                 cbind (mem_write mem1 p (cmdline @ [0])) (\<lambda>mem2.
                 Inr (0, Some (unmap_file content mem2)))))))"

definition patch_main ::
  "byte list option \<Rightarrow> (nat \<Rightarrow> bool) \<Rightarrow> cstr list \<Rightarrow> (int \<times> byte list option) c" where
  "patch_main file mmap_ok argv =
     (let argc = length argv in
      if argc \<le> 2 \<or> argc > 4 then Inr (-1, file)
      else
        cbind (if argc = 3 then Inr SEARCH_SPACE
               else cbind (c_atoi (argv ! 3)) (\<lambda>v. Inr (of_int v))) (\<lambda>search_space.
        if length (argv ! 2) + 9 > CMDLINE_MAX then Inr (-1, file)
        else patch_file file mmap_ok (argv ! 2) search_space))"

section \<open>The search\<close>

text \<open>Offset p is the first multiple of four in the search space with the marker.\<close>

definition first_marker :: "byte list \<Rightarrow> nat \<Rightarrow> nat \<Rightarrow> bool" where
  "first_marker mem search_space p \<longleftrightarrow>
     p < search_space \<and> 4 dvd p \<and> take 8 (drop p mem) = marker \<and>
     (\<forall>q < p. 4 dvd q \<longrightarrow> take 8 (drop q mem) \<noteq> marker)"

lemma length_marker [simp]: "length marker = 8"
  by (simp add: marker_def)

lemma marker_fits: "take 8 (drop p mem) = marker \<Longrightarrow> p + 8 \<le> length mem"
proof -
  assume "take 8 (drop p mem) = marker"
  then have "length (take 8 (drop p mem)) = 8" by simp
  then show ?thesis by simp
qed

lemma find_marker_skip:
  assumes "4 dvd p" "p \<le> q" "4 dvd q" "q < search_space" "q + 8 \<le> length mem"
    and "\<forall>r < q. 4 dvd r \<longrightarrow> p \<le> r \<longrightarrow> take 8 (drop r mem) \<noteq> marker"
  shows "find_marker mem search_space p = find_marker mem search_space q"
  using assms
proof (induction "q - p" arbitrary: p rule: less_induct)
  case less
  show ?case
  proof (cases "p = q")
    case False
    have "4 dvd q - p" using less.prems(1-3) by (simp add: dvd_diff_nat)
    then have le: "p + 4 \<le> q" using False less.prems(2) by (auto dest!: dvd_imp_le)
    then have "find_marker mem search_space (p + 4) = find_marker mem search_space q"
      using less.prems by (intro less.hyps) simp_all
    moreover have "take 8 (drop p mem) \<noteq> marker" using less.prems le by simp
    moreover have "p < search_space" "p + 8 \<le> length mem" using less.prems le by simp_all
    ultimately show ?thesis by (subst find_marker.simps) simp
  qed simp
qed

lemma find_marker_first:
  assumes "first_marker mem search_space p"
  shows "find_marker mem search_space 0 = Inr (Some p)"
proof -
  have p: "p < search_space" "4 dvd p" "take 8 (drop p mem) = marker"
      "\<forall>q < p. 4 dvd q \<longrightarrow> take 8 (drop q mem) \<noteq> marker"
    using assms by (simp_all add: first_marker_def)
  have "find_marker mem search_space 0 = find_marker mem search_space p"
    using p marker_fits [OF p(3)] by (intro find_marker_skip) simp_all
  also have "\<dots> = Inr (Some p)"
    using p marker_fits [OF p(3)] by (subst find_marker.simps) simp
  finally show ?thesis .
qed

lemma find_marker_found:
  assumes "find_marker mem search_space p = Inr (Some q)" "4 dvd p"
    and "\<forall>r < p. 4 dvd r \<longrightarrow> take 8 (drop r mem) \<noteq> marker"
  shows "first_marker mem search_space q"
  using assms
proof (induction mem search_space p rule: find_marker.induct)
  case (1 mem search_space p)
  have lt: "p < search_space" "p + 8 \<le> length mem"
    using "1.prems"(1) by (subst (asm) find_marker.simps, auto simp: cbind_Inr_iff mem_read_Inr_iff split: if_splits)+
  show ?case
  proof (cases "take 8 (drop p mem) = marker")
    case True
    then have "q = p" using "1.prems"(1) lt by (subst (asm) find_marker.simps) simp
    then show ?thesis using True lt "1.prems"(2,3) by (simp add: first_marker_def)
  next
    case False
    have rec: "find_marker mem search_space (p + 4) = Inr (Some q)"
      using "1.prems"(1) lt False by (subst (asm) find_marker.simps) simp
    have "take 8 (drop r mem) \<noteq> marker" if "r < p + 4" "4 dvd r" for r
    proof (cases "r < p")
      case False
      have "4 dvd r - p" using that(2) "1.prems"(2) by (simp add: dvd_diff_nat)
      then have "r = p" using that(1) False by (auto dest!: dvd_imp_le)
      then show ?thesis using \<open>take 8 (drop p mem) \<noteq> marker\<close> by simp
    qed (use "1.prems"(3) that in blast)
    then have "\<forall>r < p + 4. 4 dvd r \<longrightarrow> take 8 (drop r mem) \<noteq> marker" by blast
    moreover have "4 dvd p + 4" using "1.prems"(2) by simp
    ultimately show ?thesis using "1.IH" [OF lt(1) False rec] by blast
  qed
qed

lemma find_marker_none:
  assumes "find_marker mem search_space p = Inr None"
  shows "\<forall>r. p \<le> r \<and> r < search_space \<and> 4 dvd r - p \<longrightarrow> take 8 (drop r mem) \<noteq> marker"
  using assms
proof (induction mem search_space p rule: find_marker.induct)
  case (1 mem search_space p)
  show ?case
  proof (cases "p < search_space")
    case True
    then have w: "take 8 (drop p mem) \<noteq> marker" "p + 8 \<le> length mem"
        "find_marker mem search_space (p + 4) = Inr None"
      using "1.prems" by (subst (asm) find_marker.simps, auto simp: cbind_Inr_iff mem_read_Inr_iff split: if_splits)+
    have IH: "\<forall>r. p + 4 \<le> r \<and> r < search_space \<and> 4 dvd r - (p + 4) \<longrightarrow> take 8 (drop r mem) \<noteq> marker"
      using "1.IH" True w by simp
    show ?thesis
    proof (intro allI impI)
      fix r assume r: "p \<le> r \<and> r < search_space \<and> 4 dvd r - p"
      show "take 8 (drop r mem) \<noteq> marker"
      proof (cases "r = p")
        case False
        then have "p + 4 \<le> r" using r by (auto dest!: dvd_imp_le)
        moreover have "4 dvd r - (p + 4)"
          using r by (metis diff_diff_left dvd_diff_nat dvd_refl)
        ultimately show ?thesis using IH r by blast
      qed (use w in simp)
    qed
  qed auto
qed

section \<open>Memory and file\<close>

lemma page_up_ge: "n \<le> page_up n"
proof -
  have "n + 4095 < (n + 4095) div 4096 * 4096 + 4096"
    using div_mult_mod_eq [of "n + 4095" 4096] mod_less_divisor [of 4096 "n + 4095"] by linarith
  then show ?thesis by (simp add: page_up_def)
qed

lemma page_up_dvd: "4096 dvd page_up n"
  by (simp add: page_up_def)

lemma length_map_file: "length (map_file content n) = min (page_up n) (page_up (length content))"
  using page_up_ge [of "length content"] by (simp add: map_file_def min.commute)

lemma map_file_nth:
  "i < length content \<Longrightarrow> i < page_up n \<Longrightarrow> map_file content n ! i = content ! i"
  by (simp add: map_file_def nth_append)

lemma map_file_window:
  assumes "r + k \<le> length content" "r + k \<le> page_up n"
  shows "take k (drop r (map_file content n)) = take k (drop r content)"
proof -
  have "r + k \<le> length (map_file content n)"
    using assms page_up_ge [of "length content"] by (simp add: length_map_file)
  then show ?thesis
    using assms by (intro nth_equalityI) (simp_all add: map_file_nth)
qed

lemma length_unmap_file [simp]: "length (unmap_file content mem) = length content"
  by (simp add: unmap_file_def)

lemma unmap_file_nth:
  "i < length content \<Longrightarrow> unmap_file content mem ! i = (if i < length mem then mem ! i else content ! i)"
  by (auto simp: unmap_file_def nth_append)

lemma unmap_overwrite:
  assumes "p + length d \<le> length content" "p + length d \<le> page_up n"
  shows "unmap_file content (overwrite (map_file content n) p d) = overwrite content p d"
proof -
  have fits: "p + length d \<le> length (map_file content n)"
    using assms page_up_ge [of "length content"] by (simp add: length_map_file)
  show ?thesis
  proof (rule nth_equalityI)
    show "length (unmap_file content (overwrite (map_file content n) p d)) = length (overwrite content p d)"
      using assms by (simp add: length_overwrite)
    fix i assume "i < length (unmap_file content (overwrite (map_file content n) p d))"
    then have i: "i < length content" by simp
    show "unmap_file content (overwrite (map_file content n) p d) ! i = overwrite content p d ! i"
      using i fits assms page_up_ge [of "length content"]
      by (auto simp: unmap_file_nth length_overwrite nth_overwrite map_file_nth length_map_file)
  qed
qed

definition cmdline_field :: "cstr \<Rightarrow> byte list" where
  "cmdline_field s = s @ replicate (CMDLINE_MAX - 8 - length s) 0"

lemma length_cmdline_field: "length s + 9 \<le> CMDLINE_MAX \<Longrightarrow> length (cmdline_field s) = 504"
  by (simp add: cmdline_field_def CMDLINE_MAX_def)

lemma cmdline_writes:
  assumes "length s + 9 \<le> CMDLINE_MAX" "p + 504 \<le> length mem"
  shows "cbind (mem_write mem p (replicate (CMDLINE_MAX - 8) 0)) (\<lambda>m. mem_write m p (s @ [0])) =
     Inr (overwrite mem p (cmdline_field s))"
proof -
  have len: "length s \<le> 503" using assms(1) by (simp add: CMDLINE_MAX_def)
  have "overwrite (overwrite mem p (replicate 504 0)) p (s @ [0]) = overwrite mem p (cmdline_field s)"
  proof (rule nth_equalityI)
    show "length (overwrite (overwrite mem p (replicate 504 0)) p (s @ [0])) =
        length (overwrite mem p (cmdline_field s))"
      using assms len by (simp add: length_overwrite length_cmdline_field)
    fix i assume "i < length (overwrite (overwrite mem p (replicate 504 0)) p (s @ [0]))"
    then have i: "i < length mem" using assms len by (simp add: length_overwrite)
    then show "overwrite (overwrite mem p (replicate 504 0)) p (s @ [0]) ! i =
        overwrite mem p (cmdline_field s) ! i"
      using assms len
      by (auto simp: nth_overwrite length_overwrite length_cmdline_field cmdline_field_def nth_append
          CMDLINE_MAX_def nth_Cons' split: if_splits)
  qed
  then show ?thesis
    using assms len by (simp add: CMDLINE_MAX_def length_overwrite)
qed

text \<open>The search in the mapping is the search in the file, as far as the marker.\<close>

lemma first_marker_map:
  assumes "first_marker content ss q" "q + 8 \<le> page_up n"
  shows "first_marker (map_file content n) ss q"
proof -
  have q: "q + 8 \<le> length content"
    using assms(1) by (intro marker_fits) (simp add: first_marker_def)
  have "take 8 (drop r (map_file content n)) = take 8 (drop r content)" if "r \<le> q" for r
    using q assms(2) that by (intro map_file_window) linarith+
  then show ?thesis using assms(1) by (simp add: first_marker_def)
qed

text \<open>
  The other way: what the search finds in the mapping is in the file, for the marker has no
  zero byte and so cannot reach into the rest of the last page.
\<close>

lemma map_file_pad:
  "length content \<le> i \<Longrightarrow> i < length (map_file content n) \<Longrightarrow> map_file content n ! i = 0"
  by (subst map_file_def, subst nth_take) (auto simp: nth_append length_map_file)

lemma map_marker_in_file:
  assumes "take 8 (drop q (map_file content n)) = marker"
  shows "q + 8 \<le> length content"
proof (rule ccontr)
  assume short: "\<not> q + 8 \<le> length content"
  have fits: "q + 8 \<le> length (map_file content n)" using marker_fits [OF assms] .
  have "map_file content n ! (q + 7) = take 8 (drop q (map_file content n)) ! 7"
    using fits by simp
  also have "\<dots> = 58" by (simp add: assms marker_def bytes_def)
  finally show False using map_file_pad [of content "q + 7" n] short fits by simp
qed

lemma first_marker_file:
  assumes "first_marker (map_file content n) ss q"
  shows "first_marker content ss q"
proof -
  have q: "q + 8 \<le> length content" "q + 8 \<le> page_up n"
    using assms map_marker_in_file [of q content n] marker_fits [of q "map_file content n"]
    by (simp_all add: first_marker_def length_map_file)
  have "take 8 (drop r (map_file content n)) = take 8 (drop r content)" if "r \<le> q" for r
    using q that by (intro map_file_window) linarith+
  then show ?thesis using assms by (simp add: first_marker_def)
qed

lemma patch_file_ok:
  assumes "first_marker content (unat ss) q" "q + CMDLINE_MAX \<le> length content"
    and "length s + 9 \<le> CMDLINE_MAX" "unat ss + CMDLINE_MAX < 2 ^ 32"
    and "mmap_ok (unat ss + CMDLINE_MAX)"
  shows "patch_file (Some content) mmap_ok s ss =
     Inr (0, Some (overwrite content (q + 8) (cmdline_field s)))"
proof -
  let ?n = "unat ss + CMDLINE_MAX" and ?mem = "map_file content (unat ss + CMDLINE_MAX)"
  have n: "unat (ss + of_nat CMDLINE_MAX) = ?n"
    using assms(4) by (simp add: CMDLINE_MAX_def unat_word_ariths)
  have q: "q < unat ss" using assms(1) by (simp add: first_marker_def)
  then have pg: "q + CMDLINE_MAX \<le> page_up ?n" using page_up_ge [of ?n] by simp
  have find: "find_marker ?mem (unat ss) 0 = Inr (Some q)"
    using assms(1) pg by (intro find_marker_first first_marker_map) (simp_all add: CMDLINE_MAX_def)
  have fits: "q + 8 + 504 \<le> length ?mem"
    using assms(2) pg page_up_ge [of "length content"] by (simp add: length_map_file CMDLINE_MAX_def)
  have "unmap_file content (overwrite ?mem (q + 8) (cmdline_field s)) =
      overwrite content (q + 8) (cmdline_field s)"
    using assms(2,3) pg by (intro unmap_overwrite) (simp_all add: length_cmdline_field CMDLINE_MAX_def)
  moreover have "cbind (mem_write ?mem (q + 8) (replicate (CMDLINE_MAX - 8) 0)) (\<lambda>m1.
      cbind (mem_write m1 (q + 8) (s @ [0])) (\<lambda>m2. Inr (0, Some (unmap_file content m2)))) =
      Inr (0 :: int, Some (unmap_file content (overwrite ?mem (q + 8) (cmdline_field s))))"
    using cmdline_writes [OF assms(3) fits] by (simp flip: cbind_assoc)
  moreover have "?n \<noteq> 0" by (simp add: CMDLINE_MAX_def)
  ultimately show ?thesis
    using assms(5) find n unfolding patch_file_def Let_def by simp
qed

lemma patch_file_frame:
  assumes p: "patch_file file mmap_ok s ss = Inr (st, file')" and len: "length s + 9 \<le> CMDLINE_MAX"
  shows "(st = -1 \<and> file' = file) \<or>
     (st = 0 \<and> (\<exists>content content' q. file = Some content \<and> file' = Some content' \<and>
        length content' = length content \<and> first_marker content (unat ss) q \<and>
        (\<forall>i < length content. content' ! i =
           (if i < q + 8 \<or> q + CMDLINE_MAX \<le> i then content ! i
            else cmdline_field s ! (i - (q + 8))))))"
proof (cases "st = -1 \<and> file' = file")
  case False
  let ?n = "unat (ss + of_nat CMDLINE_MAX)"
  obtain content where c: "file = Some content"
    using p False by (auto simp: patch_file_def split: option.splits)
  let ?mem = "map_file content ?n"
  have n: "?n \<noteq> 0" "mmap_ok ?n"
    using p False c by (auto simp: patch_file_def Let_def split: if_splits)
  obtain r where r: "find_marker ?mem (unat ss) 0 = Inr r"
    using p n c by (auto simp: patch_file_def Let_def cbind_Inr_iff)
  obtain q where "r = Some q"
    using p False c n r by (cases r) (auto simp: patch_file_def Let_def)
  then obtain mem1 mem2 where q: "find_marker ?mem (unat ss) 0 = Inr (Some q)" "st = 0"
      "mem_write ?mem (q + 8) (replicate (CMDLINE_MAX - 8) 0) = Inr mem1"
      "mem_write mem1 (q + 8) (s @ [0]) = Inr mem2" "file' = Some (unmap_file content mem2)"
    using p c n r by (auto simp: patch_file_def Let_def cbind_Inr_iff)
  then have fits: "q + 8 + 504 \<le> length ?mem" by (simp add: mem_write_Inr_iff CMDLINE_MAX_def)
  have "Inr mem2 = cbind (mem_write ?mem (q + 8) (replicate (CMDLINE_MAX - 8) 0)) (\<lambda>m. mem_write m (q + 8) (s @ [0]))"
    using q(3,4) by simp
  then have mem2: "mem2 = overwrite ?mem (q + 8) (cmdline_field s)"
    using cmdline_writes [OF len fits] by simp
  have "first_marker content (unat ss) q"
    using first_marker_file [OF find_marker_found [OF q(1)]] by simp
  moreover have "unmap_file content mem2 ! i =
      (if i < q + 8 \<or> q + CMDLINE_MAX \<le> i then content ! i else cmdline_field s ! (i - (q + 8)))"
    if i: "i < length content" for i
  proof (cases "i < length ?mem")
    case True
    moreover have "?mem ! i = content ! i"
      using i True by (intro map_file_nth) (simp_all add: length_map_file)
    moreover have "unmap_file content mem2 ! i = mem2 ! i"
      using i True fits len by (simp add: mem2 unmap_file_nth length_overwrite length_cmdline_field)
    moreover have "mem2 ! i = (if i < q + 8 \<or> q + 8 + 504 \<le> i then ?mem ! i
        else cmdline_field s ! (i - (q + 8)))"
      using True fits len unfolding mem2
      by (subst nth_overwrite) (simp_all add: length_cmdline_field)
    ultimately show ?thesis by (simp add: CMDLINE_MAX_def)
  next
    case False
    then show ?thesis
      using i fits len by (simp add: mem2 unmap_file_nth length_overwrite length_cmdline_field CMDLINE_MAX_def)
  qed
  ultimately show ?thesis using q(2,5) c by auto
qed simp

lemma first_marker_overwrite:
  assumes "first_marker content ss q" "q + 8 + length d \<le> length content"
  shows "first_marker (overwrite content (q + 8) d) ss q"
proof -
  have "take 8 (drop r (overwrite content (q + 8) d)) = take 8 (drop r content)" if "r \<le> q" for r
    using assms(2) that by (intro window_overwrite_before) simp_all
  then show ?thesis using assms(1) by (simp add: first_marker_def)
qed

lemma overwrite_again:
  "length d1 = length d2 \<Longrightarrow> off + length d1 \<le> length buf \<Longrightarrow>
     overwrite (overwrite buf off d1) off d2 = overwrite buf off d2"
  by (simp add: overwrite_def)

lemma find_marker_faults:
  assumes "4 dvd p" "4 dvd length mem" "length mem < ss + 4" "p \<le> length mem" "4 \<le> length mem"
    and "\<forall>r. 4 dvd r \<longrightarrow> take 8 (drop r mem) \<noteq> marker" "p < ss"
  shows "find_marker mem ss p = Inl Undefined"
  using assms
proof (induction "length mem - p" arbitrary: p rule: less_induct)
  case less
  show ?case
  proof (cases "p + 8 \<le> length mem")
    case False
    then show ?thesis using less.prems(7) by (subst find_marker.simps) (simp add: mem_read_def)
  next
    case True
    then have "find_marker mem ss (p + 4) = Inl Undefined"
      using less.prems by (intro less.hyps) simp_all
    moreover have "take 8 (drop p mem) \<noteq> marker" using less.prems by simp
    ultimately show ?thesis using True less.prems(7) by (subst find_marker.simps) simp
  qed
qed

section \<open>Properties\<close>

text \<open>
  C26 (functional): with at most 503 bytes of command line and an image whose marker has its
  512 bytes inside the file, the program returns 0 and exactly the 504 bytes behind the first
  aligned marker of the search space are replaced: the command line, then zero bytes.
\<close>

theorem patch_main_patches:
  assumes "argv = [prog, f, s]" "length s + 9 \<le> CMDLINE_MAX"
    and "first_marker content 16384 q" "q + CMDLINE_MAX \<le> length content" "mmap_ok 16896"
  shows "patch_main (Some content) mmap_ok argv =
     Inr (0, Some (take (q + 8) content @ s @ replicate (504 - length s) 0 @ drop (q + 512) content))"
proof -
  have "overwrite content (q + 8) (cmdline_field s) =
      take (q + 8) content @ s @ replicate (504 - length s) 0 @ drop (q + 512) content"
    using assms(2) by (simp add: overwrite_def cmdline_field_def CMDLINE_MAX_def add.commute [of 512])
  moreover have "patch_file (Some content) mmap_ok s SEARCH_SPACE =
      Inr (0, Some (overwrite content (q + 8) (cmdline_field s)))"
    using assms by (intro patch_file_ok) (simp_all add: SEARCH_SPACE_def CMDLINE_MAX_def)
  ultimately show ?thesis
    using assms(1,2) by (simp add: patch_main_def numeral_2_eq_2 not_less)
qed

definition sample_kernel :: "byte list" where
  "sample_kernel = [1, 2, 3, 4] @ marker @ replicate 600 7"

lemma sample_kernel_marker: "first_marker sample_kernel ss 4 \<longleftrightarrow> 4 < ss"
proof -
  have "q = 0" if "q < 4" "4 dvd q" for q :: nat using that by auto
  then have "\<forall>q < 4. 4 dvd q \<longrightarrow> take 8 (drop q sample_kernel) \<noteq> marker"
    by (auto simp: sample_kernel_def marker_def bytes_def)
  then show ?thesis by (auto simp: first_marker_def sample_kernel_def)
qed

theorem patch_main_patches_witness:
  "patch_main (Some sample_kernel) (\<lambda>_. True) [bytes ''p'', bytes ''f'', bytes ''root=x''] =
     Inr (0, Some (take 12 sample_kernel @ bytes ''root=x'' @ replicate 498 0 @ drop 516 sample_kernel))"
  using patch_main_patches [OF refl, of "bytes ''root=x''" sample_kernel 4 "\<lambda>_. True" "bytes ''p''" "bytes ''f''"]
  by (simp add: sample_kernel_marker CMDLINE_MAX_def) (simp add: sample_kernel_def)

text \<open>
  C27 (safety): whatever the file, the arguments and the search space are, a run that returns
  has status 0 or -1. With -1 the file is unchanged. With 0 the file holds the marker at a
  multiple of four, the first such place; the file keeps its length, the bytes it has of the
  504 behind that marker are the command line followed by zero bytes, and every other byte is
  unchanged.
\<close>

theorem patch_main_frame:
  assumes "patch_main file mmap_ok argv = Inr (st, file')"
  shows "(st = -1 \<and> file' = file) \<or>
     (st = 0 \<and> (\<exists>content content' q ss. file = Some content \<and> file' = Some content' \<and>
        length content' = length content \<and> first_marker content ss q \<and>
        (\<forall>i < length content. content' ! i =
           (if i < q + 8 \<or> q + CMDLINE_MAX \<le> i then content ! i
            else cmdline_field (argv ! 2) ! (i - (q + 8))))))"
proof (cases "st = -1 \<and> file' = file")
  case False
  then obtain ss where p: "patch_file file mmap_ok (argv ! 2) ss = Inr (st, file')"
      and len: "length (argv ! 2) + 9 \<le> CMDLINE_MAX"
    using assms by (auto simp: patch_main_def Let_def cbind_Inr_iff split: if_splits)
  then show ?thesis using patch_file_frame [OF p len] False by blast
qed simp

theorem patch_main_frame_witness:
  "\<exists>file' q ss. patch_main (Some sample_kernel) (\<lambda>_. True) [bytes ''p'', bytes ''f'', bytes ''x''] =
       Inr (0, Some file') \<and> length file' = length sample_kernel \<and>
     first_marker sample_kernel ss q \<and>
     (\<forall>i < length sample_kernel. file' ! i =
        (if i < q + 8 \<or> q + CMDLINE_MAX \<le> i then sample_kernel ! i
         else cmdline_field (bytes ''x'') ! (i - (q + 8))))"
proof -
  have r: "patch_main (Some sample_kernel) (\<lambda>_. True) [bytes ''p'', bytes ''f'', bytes ''x''] =
      Inr (0, Some (take 12 sample_kernel @ bytes ''x'' @ replicate 503 0 @ drop 516 sample_kernel))"
    using patch_main_patches [OF refl, of "bytes ''x''" sample_kernel 4 "\<lambda>_. True"]
    by (simp add: sample_kernel_marker CMDLINE_MAX_def) (simp add: sample_kernel_def)
  show ?thesis using patch_main_frame [OF r] r by auto
qed

text \<open>
  C38 (roundtrip): patching an image again has the effect of the last patch alone.
\<close>

theorem patch_main_again:
  assumes "length s1 + 9 \<le> CMDLINE_MAX" "length s2 + 9 \<le> CMDLINE_MAX"
    and "first_marker content 16384 q" "q + CMDLINE_MAX \<le> length content" "mmap_ok 16896"
    and "patch_main (Some content) mmap_ok [prog, f, s1] = Inr (st, file1)"
  shows "patch_main file1 mmap_ok [prog, f, s2] = patch_main (Some content) mmap_ok [prog, f, s2]"
proof -
  have two: "patch_main (Some c) mmap_ok [prog, f, s] = Inr (0, Some (overwrite c (q + 8) (cmdline_field s)))"
    if "first_marker c 16384 q" "q + CMDLINE_MAX \<le> length c" "length s + 9 \<le> CMDLINE_MAX" for c s
  proof -
    have "patch_file (Some c) mmap_ok s SEARCH_SPACE = Inr (0, Some (overwrite c (q + 8) (cmdline_field s)))"
      using that assms(5) by (intro patch_file_ok) (simp_all add: SEARCH_SPACE_def CMDLINE_MAX_def)
    then show ?thesis using that(3) by (simp add: patch_main_def numeral_2_eq_2 not_less)
  qed
  have fits: "q + 8 + length (cmdline_field s) \<le> length content" if "length s + 9 \<le> CMDLINE_MAX" for s
    using assms(4) length_cmdline_field [OF that] by (simp add: CMDLINE_MAX_def)
  let ?c1 = "overwrite content (q + 8) (cmdline_field s1)"
  have f1: "file1 = Some ?c1" using two [OF assms(3,4,1)] assms(6) by simp
  have "first_marker ?c1 16384 q" "length ?c1 = length content"
    using first_marker_overwrite [OF assms(3) fits [OF assms(1)]] fits [OF assms(1)]
    by (simp_all add: length_overwrite)
  moreover have "overwrite ?c1 (q + 8) (cmdline_field s2) = overwrite content (q + 8) (cmdline_field s2)"
    using fits [OF assms(1)] length_cmdline_field [OF assms(1)] length_cmdline_field [OF assms(2)]
    by (intro overwrite_again) simp_all
  ultimately show ?thesis
    unfolding f1 using two [of ?c1 s2] two [of content s2] assms(2-4) by simp
qed

theorem patch_main_again_witness:
  "\<exists>file1. patch_main (Some sample_kernel) (\<lambda>_. True) [[], [], bytes ''a=1''] = Inr (0, file1) \<and>
     patch_main file1 (\<lambda>_. True) [[], [], bytes ''b''] =
     patch_main (Some sample_kernel) (\<lambda>_. True) [[], [], bytes ''b'']"
proof -
  have m: "first_marker sample_kernel 16384 4" "4 + CMDLINE_MAX \<le> length sample_kernel"
    by (simp add: sample_kernel_marker) (simp add: CMDLINE_MAX_def sample_kernel_def)
  obtain file1 where f: "patch_main (Some sample_kernel) (\<lambda>_. True) [[], [], bytes ''a=1''] = Inr (0, file1)"
    using patch_main_patches [OF refl _ m, of "bytes ''a=1''" "\<lambda>_. True"] by (auto simp: CMDLINE_MAX_def)
  show ?thesis
    using patch_main_again [OF _ _ m _ f, of "bytes ''b''"] f by (auto simp: CMDLINE_MAX_def)
qed

text \<open>
  In an image without a marker that is no longer, rounded up to pages, than the
  search space, the search does not end with "marker not found": it reads behind the mapped
  pages. This is so for every size argument that wraps around the unsigned search space.
\<close>

lemma patch_file_runs_off:
  assumes "mmap_ok (unat (ss + of_nat CMDLINE_MAX))" "ss + of_nat CMDLINE_MAX \<noteq> 0" "content \<noteq> []"
    and "mem = map_file content (unat (ss + of_nat CMDLINE_MAX))"
    and "length mem \<le> unat ss" "\<forall>r. 4 dvd r \<longrightarrow> take 8 (drop r mem) \<noteq> marker"
  shows "patch_file (Some content) mmap_ok s ss = Inl Undefined"
proof -
  let ?n = "unat (ss + of_nat CMDLINE_MAX)"
  have "0 < ?n" using assms(2) by (simp add: unat_gt_0)
  then have "?n \<le> page_up ?n" "length content \<le> page_up (length content)" "0 < length content"
    using page_up_ge assms(3) by auto
  then have "0 < length mem" unfolding assms(4) length_map_file using \<open>0 < ?n\<close> by linarith
  moreover have "4096 dvd length mem"
    unfolding assms(4) length_map_file min_def using page_up_dvd by simp
  then have "4 dvd length mem" using dvd_trans [of 4 4096 "length mem"] by simp
  moreover from calculation have "4 \<le> length mem" by (auto dest: dvd_imp_le)
  ultimately have "find_marker mem (unat ss) 0 = Inl Undefined"
    using assms(5,6) by (intro find_marker_faults) simp_all
  then show ?thesis
    using assms(1,2,4) by (simp add: patch_file_def Let_def unat_eq_zero)
qed

end
