(* ===== verification/Dns.thy ===== *)
theory Dns
  imports CFormat
begin

text \<open>
  packages/lifeline/dns.c: the resolver's four operations on \<open>dns_t\<close>. The packet is the
  bytes of \<open>dns_packet_t\<close>, a header of 12 and a payload of 512; 16-bit fields are kept in
  network order, so \<open>htons\<close> and \<open>ntohs\<close> are the reading of two bytes. The socket is what
  its calls return. An access outside the array \<open>payload\<close> or \<open>records\<close> is undefined.
\<close>

section \<open>Data\<close>

definition be16 :: "u16 \<Rightarrow> byte list" where
  "be16 v = [ucast (drop_bit 8 v), ucast v]"

definition word16 :: "byte list \<Rightarrow> u16" where
  "word16 bs = of_nat (be_value bs)"

definition word32 :: "byte list \<Rightarrow> u32" where
  "word32 bs = of_nat (be_value bs)"

definition PAYLOAD_BUFFER_SIZE :: nat where "PAYLOAD_BUFFER_SIZE = 512"

record dns_packet =
  pk_id :: u16
  pk_flags :: u16
  pk_queries :: u16
  pk_answers :: u16
  pk_authorities :: u16
  pk_additionals :: u16
  pk_payload :: "byte list"

text \<open>An address is the four bytes of an \<open>in_addr_t\<close> in memory order.\<close>

record dns_record =
  rr_ttl :: int
  rr_address :: "byte list"

record dns =
  dns_id :: u16
  dns_socket :: int
  dns_pkt :: dns_packet
  dns_address :: "byte list"
  dns_records :: "dns_record list"

definition empty_packet :: dns_packet where
  "empty_packet = \<lparr>pk_id = 0, pk_flags = 0, pk_queries = 0, pk_answers = 0, pk_authorities = 0,
     pk_additionals = 0, pk_payload = replicate PAYLOAD_BUFFER_SIZE 0\<rparr>"

definition empty_record :: dns_record where
  "empty_record = \<lparr>rr_ttl = 0, rr_address = replicate 4 0\<rparr>"

text \<open>The bytes of the packet, and a packet from bytes.\<close>

definition packet_bytes :: "dns_packet \<Rightarrow> byte list" where
  "packet_bytes p = be16 (pk_id p) @ be16 (pk_flags p) @ be16 (pk_queries p) @ be16 (pk_answers p) @
     be16 (pk_authorities p) @ be16 (pk_additionals p) @ pk_payload p"

definition packet_of_bytes :: "byte list \<Rightarrow> dns_packet" where
  "packet_of_bytes bs =
     \<lparr>pk_id = word16 (take 2 bs), pk_flags = word16 (take 2 (drop 2 bs)),
      pk_queries = word16 (take 2 (drop 4 bs)), pk_answers = word16 (take 2 (drop 6 bs)),
      pk_authorities = word16 (take 2 (drop 8 bs)), pk_additionals = word16 (take 2 (drop 10 bs)),
      pk_payload = drop 12 bs\<rparr>"

section \<open>Opening a resolver\<close>

definition dns_init :: "int \<Rightarrow> byte list \<Rightarrow> int \<times> dns" where
  "dns_init sock server =
     (let dns = \<lparr>dns_id = 0, dns_socket = sock, dns_pkt = empty_packet, dns_address = replicate 4 0,
                 dns_records = replicate 8 empty_record\<rparr>
      in if sock < 0 then (1, dns) else (0, dns\<lparr>dns_address := server\<rparr>))"

section \<open>The request\<close>

text \<open>
  The loop over the name: the payload, \<open>datap\<close> and \<open>label_length\<close> as offsets. The
  length of a label is counted in its byte.
\<close>

fun encode_labels :: "byte list \<Rightarrow> nat \<Rightarrow> nat \<Rightarrow> cstr \<Rightarrow> (byte list \<times> nat) c" where
  "encode_labels payload datap label [] = Inr (payload, datap)"
| "encode_labels payload datap label (ch # cs) =
     (if ch = 46 then encode_labels payload (datap + 1) datap cs
      else cbind (mem_read payload label 1) (\<lambda>l.
           cbind (mem_write payload label [hd l + 1]) (\<lambda>payload1.
           cbind (mem_write payload1 datap [ch]) (\<lambda>payload2.
           encode_labels payload2 (datap + 1) label cs))))"

text \<open>
  \<open>send\<close> is what \<open>sendto\<close> returns for the bytes. The result is the return code, the
  resolver and the bytes given to \<open>sendto\<close>, if it is called.
\<close>

definition dns_request :: "(byte list \<Rightarrow> int) \<Rightarrow> dns \<Rightarrow> cstr \<Rightarrow> (int \<times> dns \<times> byte list option) c" where
  "dns_request send dns name =
     (let packet = empty_packet\<lparr>pk_id := 0x1337, pk_flags := 0x100, pk_queries := 1\<rparr>;
          dns1 = dns\<lparr>dns_id := 0x1337, dns_pkt := packet\<rparr>
      in if length name > PAYLOAD_BUFFER_SIZE - 20 then Inr (2, dns1, None)
         else cbind (encode_labels (pk_payload packet) 1 0 name) (\<lambda>(payload, datap).
              cbind (mem_write payload datap [0, 0, 1, 0, 1]) (\<lambda>payload'.
              (let packet' = packet\<lparr>pk_payload := payload'\<rparr>;
                   len = 12 + (datap + 5);
                   out = take len (packet_bytes packet');
                   dns2 = dns1\<lparr>dns_pkt := packet'\<rparr>
               in Inr (if send out < int len then 3 else 0, dns2, Some out)))))"

section \<open>The reply\<close>

text \<open>The loop \<open>for (; *datap != 0; datap++)\<close>.\<close>

function skip_to_zero :: "byte list \<Rightarrow> nat \<Rightarrow> nat c" where
  "skip_to_zero payload datap =
     (if datap < length payload
      then if payload ! datap = 0 then Inr datap else skip_to_zero payload (datap + 1)
      else Inl Undefined)"
  by pat_completeness auto
termination
  by (relation "measure (\<lambda>(payload, datap). length payload - datap)") auto

text \<open>The loop over an owner name: up to a zero byte, or behind a byte with one of its two top bits set.\<close>

function skip_name :: "byte list \<Rightarrow> nat \<Rightarrow> nat c" where
  "skip_name payload datap =
     (if datap < length payload
      then if payload ! datap = 0 then Inr datap
           else if payload ! datap AND 0xc0 \<noteq> 0 then Inr (datap + 1)
           else skip_name payload (datap + 1)
      else Inl Undefined)"
  by pat_completeness auto
termination
  by (relation "measure (\<lambda>(payload, datap). length payload - datap)") auto

declare skip_to_zero.simps [simp del] skip_name.simps [simp del]

fun skip_queries :: "byte list \<Rightarrow> nat \<Rightarrow> nat \<Rightarrow> nat c" where
  "skip_queries payload 0 datap = Inr datap"
| "skip_queries payload (Suc n) datap =
     cbind (skip_to_zero payload datap) (\<lambda>d. skip_queries payload n (d + 5))"

text \<open>The loop over the answers: how many are left, \<open>datap\<close>, the records, \<open>record_count\<close>.\<close>

fun parse_answers ::
  "byte list \<Rightarrow> nat \<Rightarrow> nat \<Rightarrow> dns_record list \<Rightarrow> nat \<Rightarrow> (int \<times> dns_record list) c" where
  "parse_answers payload 0 datap records record_count = Inr (0, records)"
| "parse_answers payload (Suc n) datap records record_count =
     cbind (skip_name payload datap) (\<lambda>d0.
     (let d = d0 + 1 in
      cbind (mem_read payload d 2) (\<lambda>ty.
      cbind (mem_read payload (d + 2) 2) (\<lambda>cl.
      cbind (mem_read payload (d + 4) 4) (\<lambda>ttl.
      cbind (mem_read payload (d + 8) 2) (\<lambda>len.
      (let rdlength = unat (word16 len) in
       if word16 cl = 1 \<and> word16 ty = 1 \<and> rdlength = 4 then
         cbind (defined_if (record_count < length records)) (\<lambda>_.
         cbind (mem_read payload (d + 10) 4) (\<lambda>addr.
         (let records' = records[record_count := \<lparr>rr_ttl = sint (word32 ttl), rr_address = addr\<rparr>] in
          if record_count + 1 \<ge> 16 then Inr (6, records')
          else parse_answers payload n (d + 10 + rdlength) records' (record_count + 1))))
       else parse_answers payload n (d + 10 + rdlength) records record_count)))))))"

text \<open>
  What \<open>recvfrom\<close> gives: nothing, or a datagram and the address it came from; more than
  the packet holds is cut.
\<close>

definition dns_receive :: "dns \<Rightarrow> (byte list \<times> byte list) option \<Rightarrow> (int \<times> dns) c" where
  "dns_receive dns received =
     (let dns0 = dns\<lparr>dns_pkt := empty_packet\<rparr> in
      case received of
        None \<Rightarrow> Inr (4, dns0)
      | Some (datagram, sender) \<Rightarrow>
          let data = take (12 + PAYLOAD_BUFFER_SIZE) datagram;
              packet = packet_of_bytes (data @ replicate (12 + PAYLOAD_BUFFER_SIZE - length data) 0);
              dns1 = dns0\<lparr>dns_pkt := packet\<rparr>
          in if data = [] then Inr (4, dns0)
             else if sender \<noteq> dns_address dns then Inr (5, dns1)
             else if pk_id packet \<noteq> dns_id dns then Inr (5, dns1)
             else if unat (pk_queries packet) > 1 then Inr (5, dns1)
             else if unat (pk_answers packet) < 1 then Inr (7, dns1)
             else cbind (skip_queries (pk_payload packet) (unat (pk_queries packet)) 0) (\<lambda>datap.
                  cbind (parse_answers (pk_payload packet) (unat (pk_answers packet)) datap (dns_records dns) 0)
                    (\<lambda>(rc, records). Inr (rc, dns1\<lparr>dns_records := records\<rparr>))))"

section \<open>Words of the wire format\<close>

lemma length_be16 [simp]: "length (be16 v) = 2"
  by (simp add: be16_def)

lemma be_value_be16 [simp]: "be_value (be16 v) = unat v"
proof -
  have "unat v < 2 ^ 16" using unsigned_less [of v] by simp
  then have "unat v div 256 mod 256 = unat v div 256" by simp
  moreover have "unat (ucast (drop_bit 8 v) :: byte) = unat v div 256 mod 256"
    by (simp only: unsigned_ucast_eq unat_drop_bit_eq) (simp add: take_bit_eq_mod drop_bit_eq_div)
  moreover have "unat (ucast v :: byte) = unat v mod 256"
    by (simp only: unsigned_ucast_eq) (simp add: take_bit_eq_mod)
  ultimately show ?thesis
    using mult_div_mod_eq [of 256 "unat v"] by (simp add: be_value_def be16_def)
qed

lemma word16_be16 [simp]: "word16 (be16 v) = v"
  by (simp add: word16_def)

lemma word32_be32 [simp]: "word32 (be32 v) = v"
  by (simp add: word32_def)

lemma be16_inject: "be16 v = be16 w \<longleftrightarrow> v = w"
  by (metis word16_be16)

section \<open>Names on the wire\<close>

fun split_dots :: "cstr \<Rightarrow> cstr list" where
  "split_dots [] = [[]]"
| "split_dots (ch # cs) =
     (if ch = 46 then [] # split_dots cs
      else case split_dots cs of [] \<Rightarrow> [[ch]] | l # ls \<Rightarrow> (ch # l) # ls)"

definition wire_labels :: "cstr list \<Rightarrow> byte list" where
  "wire_labels ls = concat (map (\<lambda>l. of_nat (length l) # l) ls)"

lemma wire_labels_simps [simp]:
  "wire_labels [] = []"
  "wire_labels (l # ls) = of_nat (length l) # l @ wire_labels ls"
  by (simp_all add: wire_labels_def)

lemma split_dots_ne: "split_dots s \<noteq> []"
  by (cases s) (auto split: list.splits)

lemma length_wire_split: "length (wire_labels (split_dots s)) = length s + 1"
proof (induction s)
  case (Cons ch s)
  obtain l ls where "split_dots s = l # ls" using split_dots_ne by (cases "split_dots s") auto
  then show ?case using Cons by simp
qed simp

text \<open>
  The encoder from the middle of a label \<open>cur\<close>: its length byte is in place, zero bytes
  follow what has been written.
\<close>

lemma encode_labels_eq:
  assumes "length cs \<le> m"
  shows "encode_labels (pre @ of_nat (length cur) # cur @ replicate m 0)
       (length pre + 1 + length cur) (length pre) cs =
     Inr (pre @ wire_labels ((cur @ hd (split_dots cs)) # tl (split_dots cs)) @ replicate (m - length cs) 0,
          length pre + 1 + length cur + length cs)"
  using assms
proof (induction cs arbitrary: pre cur m)
  case Nil
  then show ?case by simp
next
  case (Cons ch cs)
  then obtain m' where m: "m = Suc m'" "length cs \<le> m'" by (cases m) auto
  let ?p = "pre @ of_nat (length cur) # cur @ replicate m 0"
  show ?case
  proof (cases "ch = 46")
    case True
    let ?pre = "pre @ of_nat (length cur) # cur"
    have "?p = ?pre @ of_nat (length ([] :: byte list)) # [] @ replicate m' 0"
      by (simp add: m)
    then have "encode_labels ?p (length pre + 1 + length cur + 1) (length pre + 1 + length cur) cs =
        Inr (?pre @ wire_labels (([] @ hd (split_dots cs)) # tl (split_dots cs)) @ replicate (m' - length cs) 0,
          length ?pre + 1 + length ([] :: byte list) + length cs)"
      using Cons.IH [of m' ?pre "[]"] m by simp
    moreover have "hd (split_dots cs) # tl (split_dots cs) = split_dots cs"
      using split_dots_ne by simp
    ultimately show ?thesis using True m by simp
  next
    case False
    have r: "mem_read ?p (length pre) 1 = Inr [of_nat (length cur)]" by simp
    let ?p1 = "pre @ of_nat (length (cur @ [ch])) # cur @ replicate m 0"
    have w1: "mem_write ?p (length pre) [of_nat (length cur) + 1] = Inr ?p1"
      by (simp add: overwrite_def add.commute)
    let ?p2 = "pre @ of_nat (length (cur @ [ch])) # (cur @ [ch]) @ replicate m' 0"
    have w2: "mem_write ?p1 (length pre + 1 + length cur) [ch] = Inr ?p2"
      by (simp add: overwrite_def m)
    obtain l ls where s: "split_dots cs = l # ls" using split_dots_ne by (cases "split_dots cs") auto
    have step: "encode_labels ?p (length pre + 1 + length cur) (length pre) (ch # cs) =
        encode_labels ?p2 (length pre + 1 + length (cur @ [ch])) (length pre) cs"
      unfolding encode_labels.simps r cbind_simps list.sel w1 w2 using False by simp
    show ?thesis
      unfolding step using Cons.IH [of m' pre "cur @ [ch]"] m s False by simp
  qed
qed

definition request_payload :: "cstr \<Rightarrow> byte list" where
  "request_payload name = wire_labels (split_dots name) @ [0, 0, 1, 0, 1]"

definition request_header :: "byte list" where
  "request_header = [0x13, 0x37, 1, 0, 0, 1, 0, 0, 0, 0, 0, 0]"

lemma dns_request_eq:
  assumes "length name \<le> 492"
  shows "dns_request send dns name =
     (let out = request_header @ request_payload name in
      Inr (if send out < int (length out) then 3 else 0,
        dns\<lparr>dns_id := 0x1337, dns_pkt := empty_packet\<lparr>pk_id := 0x1337, pk_flags := 0x100, pk_queries := 1,
          pk_payload := request_payload name @ replicate (506 - length name) 0\<rparr>\<rparr>,
        Some out))"
proof -
  let ?n = "length name" and ?W = "wire_labels (split_dots name)"
  have hd_tl: "hd (split_dots name) # tl (split_dots name) = split_dots name"
    using split_dots_ne by simp
  have "replicate 512 (0 :: byte) = [] @ of_nat (length ([] :: byte list)) # [] @ replicate 511 0"
    by (simp add: numeral_eq_Suc)
  then have enc: "encode_labels (replicate 512 0) 1 0 name = Inr (?W @ replicate (511 - ?n) 0, 1 + ?n)"
    using encode_labels_eq [of name 511 "[]" "[]"] assms hd_tl by simp
  have W: "length ?W = 1 + ?n" by (simp add: length_wire_split)
  have "511 - ?n = 5 + (506 - ?n)" using assms by simp
  then have "replicate (511 - ?n) (0 :: byte) = replicate 5 0 @ replicate (506 - ?n) 0"
    by (simp only: replicate_add)
  then have w: "mem_write (?W @ replicate (511 - ?n) 0) (1 + ?n) [0, 0, 1, 0, 1] =
      Inr (request_payload name @ replicate (506 - ?n) 0)"
    using W assms by (simp add: overwrite_def request_payload_def)
  have len: "length (request_payload name) = 1 + ?n + 5" using W by (simp add: request_payload_def)
  have hdr: "be16 0x1337 @ be16 0x100 @ be16 1 @ be16 0 @ be16 0 @ be16 0 = request_header"
    by (simp add: be16_def request_header_def)
  let ?pk = "empty_packet\<lparr>pk_id := 0x1337, pk_flags := 0x100, pk_queries := 1,
      pk_payload := request_payload name @ replicate (506 - ?n) 0\<rparr>"
  have "packet_bytes ?pk = request_header @ request_payload name @ replicate (506 - ?n) 0"
    using hdr by (simp add: packet_bytes_def empty_packet_def)
  then have pb: "packet_bytes ?pk = (request_header @ request_payload name) @ replicate (506 - ?n) 0"
    by simp
  have pl: "length (request_header @ request_payload name) = 12 + (1 + ?n + 5)"
    using len by (simp add: request_header_def)
  have out: "take (12 + (1 + ?n + 5)) (packet_bytes ?pk) = request_header @ request_payload name"
    using pb pl by (metis append_eq_conv_conj)
  have pay: "pk_payload empty_packet = replicate 512 0"
    by (simp add: empty_packet_def PAYLOAD_BUFFER_SIZE_def)
  have long: "\<not> PAYLOAD_BUFFER_SIZE - 20 < ?n" using assms by (simp add: PAYLOAD_BUFFER_SIZE_def)
  show ?thesis
    using enc w out pl long unfolding dns_request_def Let_def
    by (simp add: pay del: length_append)
qed

section \<open>Replies\<close>

text \<open>A resource record as a server sends it: the owner name is given by its bytes.\<close>

record answer =
  an_name :: "byte list"
  an_type :: u16
  an_class :: u16
  an_ttl :: u32
  an_rdata :: "byte list"

definition answer_bytes :: "answer \<Rightarrow> byte list" where
  "answer_bytes a = an_name a @ be16 (an_type a) @ be16 (an_class a) @ be32 (an_ttl a) @
     be16 (of_nat (length (an_rdata a))) @ an_rdata a"

text \<open>A name of one byte, the root, or of two, a compression pointer.\<close>

definition compressed :: "byte list \<Rightarrow> bool" where
  "compressed n \<longleftrightarrow> n = [0] \<or> (length n = 2 \<and> n ! 0 AND 0xc0 \<noteq> 0)"

definition is_address :: "answer \<Rightarrow> bool" where
  "is_address a \<longleftrightarrow> an_class a = 1 \<and> an_type a = 1 \<and> length (an_rdata a) = 4"

definition record_of :: "answer \<Rightarrow> dns_record" where
  "record_of a = \<lparr>rr_ttl = sint (an_ttl a), rr_address = an_rdata a\<rparr>"

definition answer_ok :: "answer \<Rightarrow> bool" where
  "answer_ok a \<longleftrightarrow> compressed (an_name a) \<and> length (an_rdata a) < 65536"

lemma mem_read_at:
  "mem = xs @ ys @ zs \<Longrightarrow> d = length xs \<Longrightarrow> n = length ys \<Longrightarrow> mem_read mem d n = Inr ys"
  by simp

lemma skip_name_compressed:
  assumes "payload = pre @ n @ rest" "compressed n"
  shows "\<exists>d. skip_name payload (length pre) = Inr d \<and> d + 1 = length pre + length n"
proof (cases "n = [0]")
  case True
  then show ?thesis using assms(1) by (subst skip_name.simps) (simp add: nth_append)
next
  case False
  then have n: "length n = 2" "n ! 0 AND 0xc0 \<noteq> 0" using assms(2) by (simp_all add: compressed_def)
  then have "payload ! length pre = n ! 0" "length pre < length payload"
    using assms(1) by (simp_all add: nth_append)
  moreover have "n ! 0 \<noteq> 0" using n(2) by auto
  ultimately show ?thesis using n by (subst skip_name.simps) simp
qed

lemma parse_answer:
  assumes payload: "payload = pre @ answer_bytes a @ rest" and a: "answer_ok a"
    and k: "length records \<le> 15"
  shows "parse_answers payload (Suc n) (length pre) records k =
     (if is_address a then
        if k < length records
        then parse_answers payload n (length pre + length (answer_bytes a)) (records[k := record_of a]) (k + 1)
        else Inl Undefined
      else parse_answers payload n (length pre + length (answer_bytes a)) records k)"
proof -
  let ?n = "an_name a" and ?t = "be16 (an_type a)" and ?c = "be16 (an_class a)" and ?ttl = "be32 (an_ttl a)"
  let ?l = "be16 (of_nat (length (an_rdata a)))" and ?r = "an_rdata a"
  have P: "payload = pre @ ?n @ ?t @ ?c @ ?ttl @ ?l @ ?r @ rest"
    using payload by (simp add: answer_bytes_def)
  obtain d0 where d0: "skip_name payload (length pre) = Inr d0" "d0 + 1 = length pre + length ?n"
    using skip_name_compressed [of payload pre ?n] P a by (auto simp: answer_ok_def)
  let ?d = "d0 + 1"
  have r1: "mem_read payload ?d 2 = Inr ?t"
    by (rule mem_read_at [where xs = "pre @ ?n" and zs = "?c @ ?ttl @ ?l @ ?r @ rest"]) (use d0(2) in \<open>simp_all add: P\<close>)
  have r2: "mem_read payload (?d + 2) 2 = Inr ?c"
    by (rule mem_read_at [where xs = "pre @ ?n @ ?t" and zs = "?ttl @ ?l @ ?r @ rest"]) (use d0(2) in \<open>simp_all add: P\<close>)
  have r3: "mem_read payload (?d + 4) 4 = Inr ?ttl"
    by (rule mem_read_at [where xs = "pre @ ?n @ ?t @ ?c" and zs = "?l @ ?r @ rest"]) (use d0(2) in \<open>simp_all add: P\<close>)
  have r4: "mem_read payload (?d + 8) 2 = Inr ?l"
    by (rule mem_read_at [where xs = "pre @ ?n @ ?t @ ?c @ ?ttl" and zs = "?r @ rest"]) (use d0(2) in \<open>simp_all add: P\<close>)
  have len: "unat (of_nat (length ?r) :: u16) = length ?r"
    using a by (simp add: answer_ok_def unat_of_nat)
  have next_d: "?d + 10 + length ?r = length pre + length (answer_bytes a)"
    using d0(2) by (simp add: answer_bytes_def)
  have r5: "mem_read payload (?d + 10) 4 = Inr ?r" if "length ?r = 4"
    by (rule mem_read_at [where xs = "pre @ ?n @ ?t @ ?c @ ?ttl @ ?l" and zs = rest])
      (use d0(2) that in \<open>simp_all add: P\<close>)
  show ?thesis
  proof (cases "is_address a")
    case False
    then show ?thesis
      unfolding parse_answers.simps d0(1) cbind_simps Let_def r1 r2 r3 r4 word16_be16 len next_d
      by (auto simp: is_address_def)
  next
    case True
    then have four: "length ?r = 4" by (simp add: is_address_def)
    have big: "\<not> 16 \<le> k + 1" if "k < length records" using that assms(3) by simp
    have "parse_answers payload (Suc n) (length pre) records k =
        cbind (defined_if (k < length records)) (\<lambda>_.
          if 16 \<le> k + 1 then Inr (6, records[k := record_of a])
          else parse_answers payload n (length pre + length (answer_bytes a)) (records[k := record_of a]) (k + 1))"
      unfolding parse_answers.simps d0(1) cbind_simps Let_def r1 r2 r3 r4 r5 [OF four] word16_be16 word32_be32
        len next_d
      using True by (simp add: is_address_def record_of_def)
    then show ?thesis using True big by (cases "k < length records") simp_all
  qed
qed

definition addresses :: "answer list \<Rightarrow> dns_record list" where
  "addresses as = map record_of (filter is_address as)"

definition answers_bytes :: "answer list \<Rightarrow> byte list" where
  "answers_bytes as = concat (map answer_bytes as)"

lemma parse_answers_eq:
  assumes "payload = pre @ answers_bytes as @ rest" "\<forall>a \<in> set as. answer_ok a"
    and "length records \<le> 15" "k \<le> length records"
  shows "parse_answers payload (length as) (length pre) records k =
     (if k + length (addresses as) \<le> length records
      then Inr (0, take k records @ addresses as @ drop (k + length (addresses as)) records)
      else Inl Undefined)"
  using assms
proof (induction as arbitrary: pre records k)
  case Nil
  then show ?case by (simp add: addresses_def)
next
  case (Cons a as)
  have pl: "payload = pre @ answer_bytes a @ (answers_bytes as @ rest)"
    using Cons.prems(1) by (simp add: answers_bytes_def)
  have step: "parse_answers payload (length (a # as)) (length pre) records k =
     (if is_address a then
        if k < length records
        then parse_answers payload (length as) (length (pre @ answer_bytes a)) (records[k := record_of a]) (k + 1)
        else Inl Undefined
      else parse_answers payload (length as) (length (pre @ answer_bytes a)) records k)"
    using parse_answer [OF pl _ Cons.prems(3), of "length as" k] Cons.prems(2) by simp
  have pl': "payload = (pre @ answer_bytes a) @ answers_bytes as @ rest" using pl by simp
  have ok: "\<forall>a \<in> set as. answer_ok a" using Cons.prems(2) by simp
  show ?case
  proof (cases "is_address a")
    case False
    then show ?thesis
      unfolding step using Cons.IH [OF pl' ok Cons.prems(3,4)] by (simp add: addresses_def)
  next
    case True
    let ?recs = "records[k := record_of a]"
    show ?thesis
    proof (cases "k < length records")
      case False
      then show ?thesis unfolding step using True by (simp add: addresses_def)
    next
      case lt: True
      have tk: "take (k + 1) ?recs = take k records @ [record_of a]"
        using lt by (simp add: take_Suc_conv_app_nth)
      have "parse_answers payload (length as) (length (pre @ answer_bytes a)) ?recs (k + 1) =
         (if k + 1 + length (addresses as) \<le> length records
          then Inr (0, take (k + 1) ?recs @ addresses as @ drop (k + 1 + length (addresses as)) ?recs)
          else Inl Undefined)"
        using Cons.IH [OF pl' ok, of ?recs "k + 1"] Cons.prems(3) lt by simp
      then show ?thesis
        unfolding step using True lt tk by (simp add: addresses_def)
    qed
  qed
qed

lemma skip_to_zero_at:
  assumes "payload = pre @ q @ 0 # rest" "0 \<notin> set q"
  shows "skip_to_zero payload (length pre) = Inr (length pre + length q)"
  using assms
proof (induction q arbitrary: pre)
  case Nil
  then show ?case by (subst skip_to_zero.simps) (simp add: nth_append)
next
  case (Cons b q)
  have "skip_to_zero payload (length (pre @ [b])) = Inr (length (pre @ [b]) + length q)"
    using Cons.prems by (intro Cons.IH) simp_all
  moreover have "payload ! length pre = b" "length pre < length payload" "b \<noteq> 0"
    using Cons.prems by (auto simp: nth_append)
  ultimately show ?case by (subst skip_to_zero.simps) simp
qed

text \<open>A reply: header, the question as it was asked, the answers, anything behind them.\<close>

definition reply_bytes :: "u16 \<Rightarrow> byte list \<Rightarrow> answer list \<Rightarrow> u16 \<Rightarrow> u16 \<Rightarrow> byte list \<Rightarrow> byte list" where
  "reply_bytes flags q as ns ar rest =
     be16 0x1337 @ be16 flags @ be16 1 @ be16 (of_nat (length as)) @ be16 ns @ be16 ar @
     q @ [0, 0, 1, 0, 1] @ answers_bytes as @ rest"

lemma length_answers: "length as \<le> length (answers_bytes as)"
  by (induction as) (simp_all add: answers_bytes_def answer_bytes_def)

lemma packet_of_reply:
  assumes "length (reply_bytes flags q as ns ar rest) \<le> 524"
  shows "packet_of_bytes (reply_bytes flags q as ns ar rest @ pad) =
     \<lparr>pk_id = 0x1337, pk_flags = flags, pk_queries = 1, pk_answers = of_nat (length as),
      pk_authorities = ns, pk_additionals = ar,
      pk_payload = q @ [0, 0, 1, 0, 1] @ answers_bytes as @ rest @ pad\<rparr>"
  by (simp add: packet_of_bytes_def reply_bytes_def)

lemma dns_receive_reply:
  assumes d: "d = reply_bytes flags q as ns ar rest" "length d \<le> 524"
    and "0 \<notin> set q" "\<forall>a \<in> set as. answer_ok a" "as \<noteq> []"
    and "dns_id dns = 0x1337" "length (dns_records dns) = 8" "sender = dns_address dns"
  shows "dns_receive dns (Some (d, sender)) =
     (if length (addresses as) \<le> 8
      then Inr (0, dns\<lparr>dns_pkt := packet_of_bytes (d @ replicate (524 - length d) 0),
        dns_records := addresses as @ drop (length (addresses as)) (dns_records dns)\<rparr>)
      else Inl Undefined)"
proof -
  let ?pad = "replicate (524 - length d) 0 :: byte list"
  let ?pl = "q @ [0, 0, 1, 0, 1] @ answers_bytes as @ rest @ ?pad"
  have pk: "packet_of_bytes (d @ ?pad) = \<lparr>pk_id = 0x1337, pk_flags = flags, pk_queries = 1,
      pk_answers = of_nat (length as), pk_authorities = ns, pk_additionals = ar, pk_payload = ?pl\<rparr>"
    using packet_of_reply d by simp
  have cut: "take (12 + PAYLOAD_BUFFER_SIZE) d = d" "d \<noteq> []"
    using d by (simp_all add: PAYLOAD_BUFFER_SIZE_def reply_bytes_def be16_def)
  have "length as \<le> 524"
    using length_answers [of as] d by (simp add: reply_bytes_def)
  then have n: "unat (of_nat (length as) :: u16) = length as" by (simp add: unat_of_nat)
  have "skip_to_zero ?pl 0 = Inr (length q)"
    using skip_to_zero_at [of ?pl "[]" q "[0, 1, 0, 1] @ answers_bytes as @ rest @ ?pad"] assms(3) by simp
  then have sk: "skip_queries ?pl (Suc 0) 0 = Inr (length (q @ [0, 0, 1, 0, 1]))" by simp
  have pa: "parse_answers ?pl (length as) (length (q @ [0, 0, 1, 0, 1])) (dns_records dns) 0 =
     (if length (addresses as) \<le> 8
      then Inr (0, addresses as @ drop (length (addresses as)) (dns_records dns)) else Inl Undefined)"
    using parse_answers_eq [of ?pl "q @ [0, 0, 1, 0, 1]" as "rest @ ?pad" "dns_records dns" 0] assms(4,7)
    by simp
  have "\<not> length as < 1" using assms(5) by (cases as) simp_all
  then show ?thesis
    using cut assms(6,8) sk pa n
    unfolding dns_receive_def Let_def cut option.case prod.case
    by (simp add: pk PAYLOAD_BUFFER_SIZE_def)
qed

section \<open>The standard reading of a name\<close>

text \<open>
  Labels as RFC 1035 reads them, without compression: a length byte of at most 63 (the two
  top bits mark other things) and as many bytes, up to a zero.
\<close>

function read_labels :: "byte list \<Rightarrow> (cstr list \<times> byte list) option" where
  "read_labels bs =
     (case bs of
        [] \<Rightarrow> None
      | l # rest \<Rightarrow>
          if l = 0 then Some ([], rest)
          else if 64 \<le> unat l \<or> length rest < unat l then None
          else case read_labels (drop (unat l) rest) of
              None \<Rightarrow> None
            | Some (ls, r) \<Rightarrow> Some (take (unat l) rest # ls, r))"
  by pat_completeness auto
termination
  by (relation "measure length") auto

declare read_labels.simps [simp del]

lemma read_labels_wire:
  assumes "\<forall>l \<in> set ls. l \<noteq> [] \<and> length l < 64"
  shows "read_labels (wire_labels ls @ 0 # rest) = Some (ls, rest)"
  using assms
proof (induction ls)
  case Nil
  then show ?case by (subst read_labels.simps) simp
next
  case (Cons l ls)
  have u: "unat (of_nat (length l) :: byte) = length l" using Cons.prems by (simp add: unat_of_nat)
  have "(of_nat (length l) :: byte) \<noteq> 0"
  proof
    assume "(of_nat (length l) :: byte) = 0"
    then have "length l = 0" using u by simp
    then show False using Cons.prems by simp
  qed
  then show ?case
    using Cons u by (subst read_labels.simps) simp
qed

lemma read_labels_legal:
  "read_labels bs = Some (ls, rest) \<Longrightarrow> \<forall>l \<in> set ls. l \<noteq> [] \<and> length l < 64"
proof (induction bs arbitrary: ls rule: read_labels.induct)
  case (1 bs)
  show ?case
  proof (cases bs)
    case Nil
    then show ?thesis using "1.prems" by (subst (asm) read_labels.simps) simp
  next
    case (Cons l more)
    show ?thesis
    proof (cases "l = 0")
      case True
      then show ?thesis using "1.prems" Cons by (subst (asm) read_labels.simps) simp
    next
      case False
      then have w: "\<not> (64 \<le> unat l \<or> length more < unat l)"
        using "1.prems" Cons by (subst (asm) read_labels.simps) (auto split: if_splits)
      then obtain ls' where ls': "read_labels (drop (unat l) more) = Some (ls', rest)"
          "ls = take (unat l) more # ls'"
        using "1.prems" Cons False by (subst (asm) read_labels.simps) (auto split: option.splits)
      have "0 < unat l" using False by (simp add: unat_gt_0)
      then have "take (unat l) more \<noteq> []" "length (take (unat l) more) < 64" using w by auto
      then show ?thesis using "1.IH" [OF Cons False w ls'(1)] ls'(2) by simp
    qed
  qed
qed

lemma parse_answers_never_6:
  "length records \<le> 15 \<Longrightarrow> parse_answers payload n datap records k \<noteq> Inr (6, rs)"
proof (induction n arbitrary: datap records k)
  case (Suc n)
  show ?case
  proof
    assume r: "parse_answers payload (Suc n) datap records k = Inr (6, rs)"
    obtain d0 ty cl ttl len where d: "skip_name payload datap = Inr d0"
        "mem_read payload (d0 + 1) 2 = Inr ty" "mem_read payload (d0 + 1 + 2) 2 = Inr cl"
        "mem_read payload (d0 + 1 + 4) 4 = Inr ttl" "mem_read payload (d0 + 1 + 8) 2 = Inr len"
      using r by (auto simp: cbind_Inr_iff Let_def simp del: mem_read_ok)
    show False
    proof (cases "word16 cl = 1 \<and> word16 ty = 1 \<and> unat (word16 len) = 4")
      case False
      then show False
        using r d Suc unfolding parse_answers.simps d cbind_simps Let_def by auto
    next
      case True
      then obtain addr where "k < length records" "parse_answers payload n (d0 + 1 + 10 + 4)
          (records[k := \<lparr>rr_ttl = sint (word32 ttl), rr_address = addr\<rparr>]) (k + 1) = Inr (6, rs)"
        using r Suc.prems unfolding parse_answers.simps d cbind_simps Let_def
        by (auto simp: cbind_Inr_iff split: if_splits)
      then show False using Suc by simp
    qed
  qed
qed simp

section \<open>Properties\<close>

text \<open>
  C29 (functional): a request for a name of at most 492 bytes never leaves the packet; what is
  sent is the header, each label behind its length, a zero byte, type A and class IN, and the
  code tells whether all of it was sent. A longer name is refused before anything is encoded.
\<close>

theorem dns_request_wire:
  "\<exists>dns'. dns_request send dns name =
     (if length name \<le> 492
      then let out = request_header @ request_payload name
           in Inr (if send out < int (length out) then 3 else 0, dns', Some out)
      else Inr (2, dns', None)) \<and>
     dns_id dns' = 0x1337 \<and> dns_records dns' = dns_records dns \<and> dns_address dns' = dns_address dns"
proof (cases "length name \<le> 492")
  case True
  show ?thesis
    unfolding dns_request_eq [OF True] using True
    by (intro exI [of _ "dns\<lparr>dns_id := 0x1337, dns_pkt := empty_packet\<lparr>pk_id := 0x1337, pk_flags := 0x100,
      pk_queries := 1, pk_payload := request_payload name @ replicate (506 - length name) 0\<rparr>\<rparr>"]) (simp add: Let_def)
next
  case False
  then show ?thesis by (simp add: dns_request_def PAYLOAD_BUFFER_SIZE_def Let_def)
qed

text \<open>
  C36 (roundtrip): of the datagram that a request for a name of at most 492 bytes hands to
  \<open>sendto\<close>, the part behind the header reads back under RFC 1035 as the name's labels, type A
  and class IN, exactly when each label has between 1 and 63 bytes. (The code checks no
  label: any other name is sent as something else.)
\<close>

theorem dns_name_roundtrip:
  assumes "length name \<le> 492"
  shows "\<exists>dns' out. dns_request send dns name =
       Inr (if send out < int (length out) then 3 else 0, dns', Some out) \<and>
     take 12 out = request_header \<and>
     (read_labels (drop 12 out) = Some (split_dots name, [0, 1, 0, 1]) \<longleftrightarrow>
        (\<forall>l \<in> set (split_dots name). l \<noteq> [] \<and> length l < 64))"
proof -
  let ?out = "request_header @ request_payload name"
  have h: "length request_header = 12" by (simp add: request_header_def)
  have "read_labels (request_payload name) = Some (split_dots name, [0, 1, 0, 1]) \<longleftrightarrow>
      (\<forall>l \<in> set (split_dots name). l \<noteq> [] \<and> length l < 64)"
    using read_labels_wire [of "split_dots name" "[0, 1, 0, 1]"] read_labels_legal
    unfolding request_payload_def by auto
  then show ?thesis
    using assms h unfolding dns_request_eq [OF assms] Let_def by (intro exI [of _ ?out] exI) simp
qed

theorem dns_name_roundtrip_witness:
  "\<exists>dns' out. dns_request (\<lambda>q. int (length q)) (snd (dns_init 3 [8, 8, 8, 8])) (bytes ''a.bc'') =
       Inr (0, dns', Some out) \<and>
     read_labels (drop 12 out) = Some ([bytes ''a'', bytes ''bc''], [0, 1, 0, 1])"
proof -
  have "split_dots (bytes ''a.bc'') = [bytes ''a'', bytes ''bc'']" by (simp add: bytes_def)
  moreover have "\<forall>l \<in> set [bytes ''a'', bytes ''bc'']. l \<noteq> [] \<and> length l < 64" by (simp add: bytes_def)
  ultimately show ?thesis
    using dns_name_roundtrip [of "bytes ''a.bc''" "\<lambda>q. int (length q)" "snd (dns_init 3 [8, 8, 8, 8])"] by auto
qed

text \<open>
  The length of a label is not checked: one of 256 bytes is sent with the length
  zero, which ends the name.
\<close>

lemma dns_label_wraps:
  assumes "46 \<notin> set l" "length l = 256"
  shows "read_labels (request_payload l) = Some ([], l @ [0, 0, 1, 0, 1])"
proof -
  have "split_dots cs = [cs]" if "46 \<notin> set cs" for cs
    using that by (induction cs) simp_all
  then have "request_payload l = 0 # l @ [0, 0, 1, 0, 1]"
    using assms by (simp add: request_payload_def)
  then show ?thesis by (subst read_labels.simps) simp
qed

text \<open>
  C28 (functional): a reply to the request, from the server asked, with compressed owner names
  and any mix of record types, gives exactly the ttl and address of its A records of class IN, in
  order, when there are at most eight; a ninth is stored behind the array.
\<close>

theorem dns_receive_answers:
  assumes "d = reply_bytes flags q as ns ar rest" "length d \<le> 524" "0 \<notin> set q"
    and "\<forall>a \<in> set as. answer_ok a" "as \<noteq> []"
    and "dns_id dns = 0x1337" "length (dns_records dns) = 8" "sender = dns_address dns"
  shows "if length (addresses as) \<le> 8
     then \<exists>dns'. dns_receive dns (Some (d, sender)) = Inr (0, dns') \<and>
       dns_records dns' = addresses as @ drop (length (addresses as)) (dns_records dns)
     else dns_receive dns (Some (d, sender)) = Inl Undefined"
  using dns_receive_reply [OF assms] by auto

definition sample_dns :: dns where
  "sample_dns = \<lparr>dns_id = 0x1337, dns_socket = 3, dns_pkt = empty_packet, dns_address = [8, 8, 8, 8],
     dns_records = replicate 8 empty_record\<rparr>"

definition sample_answers :: "answer list" where
  "sample_answers =
     [\<lparr>an_name = [0xc0, 12], an_type = 5, an_class = 1, an_ttl = 9, an_rdata = [1, 120, 0]\<rparr>,
      \<lparr>an_name = [0xc0, 12], an_type = 1, an_class = 1, an_ttl = 60, an_rdata = [1, 2, 3, 4]\<rparr>]"

lemma sample_answers_ok: "\<forall>a \<in> set sample_answers. answer_ok a"
  by (simp add: sample_answers_def answer_ok_def compressed_def)

theorem dns_receive_answers_witness:
  "\<exists>dns'. dns_receive sample_dns (Some (reply_bytes 0x8180 [1, 97] sample_answers 0 0 [], [8, 8, 8, 8])) =
       Inr (0, dns') \<and> hd (dns_records dns') = \<lparr>rr_ttl = 60, rr_address = [1, 2, 3, 4]\<rparr>"
proof -
  let ?d = "reply_bytes 0x8180 [1, 97] sample_answers 0 0 []"
  have len: "length ?d \<le> 524"
    by (simp add: reply_bytes_def answers_bytes_def answer_bytes_def sample_answers_def)
  have as: "addresses sample_answers = [\<lparr>rr_ttl = 60, rr_address = [1, 2, 3, 4]\<rparr>]"
    by (simp add: addresses_def sample_answers_def is_address_def record_of_def)
  have dns: "dns_id sample_dns = 0x1337" "length (dns_records sample_dns) = 8"
      "[8, 8, 8, 8] = dns_address sample_dns" "(0 :: byte) \<notin> set [1, 97]" "sample_answers \<noteq> []"
    by (simp_all add: sample_dns_def sample_answers_def)
  have "length (addresses sample_answers) \<le> 8" by (simp add: as)
  then obtain dns' where "dns_receive sample_dns (Some (?d, [8, 8, 8, 8])) = Inr (0, dns')"
      "dns_records dns' = addresses sample_answers @ drop (length (addresses sample_answers)) (dns_records sample_dns)"
    using dns_receive_answers [OF refl len dns(4) sample_answers_ok dns(5) dns(1,2,3)] by auto
  then show ?thesis unfolding as by auto
qed

text \<open>
  C37 (safety): only a datagram from the server asked, with the id of the request, at most one
  question and at least one answer can be accepted; every other outcome of the receive is an
  error code and leaves the records alone.
\<close>

theorem dns_receive_rejects:
  assumes "dns_receive dns received = Inr (rc, dns')"
  shows "(rc \<in> {4, 5, 7} \<and> dns_records dns' = dns_records dns) \<or>
     (\<exists>datagram. received = Some (datagram, dns_address dns) \<and> datagram \<noteq> [] \<and>
        pk_id (dns_pkt dns') = dns_id dns \<and> unat (pk_queries (dns_pkt dns')) \<le> 1 \<and>
        1 \<le> unat (pk_answers (dns_pkt dns')))"
proof (cases received)
  case None
  then show ?thesis using assms by (auto simp: dns_receive_def)
next
  case (Some r)
  obtain datagram sender where "received = Some (datagram, sender)" using Some by (cases r) auto
  then show ?thesis
    using assms by (auto simp: dns_receive_def Let_def cbind_Inr_iff PAYLOAD_BUFFER_SIZE_def split: if_splits)
qed

theorem dns_receive_rejects_witness:
  "\<exists>dns'. dns_receive sample_dns (Some ([1, 2, 3], [9, 9, 9, 9])) = Inr (5, dns') \<and>
     dns_records dns' = dns_records sample_dns"
proof -
  obtain dns' where r: "dns_receive sample_dns (Some ([1, 2, 3], [9, 9, 9, 9])) = Inr (5, dns')"
    by (simp add: dns_receive_def sample_dns_def PAYLOAD_BUFFER_SIZE_def)
  then show ?thesis using dns_receive_rejects [OF r] by (auto simp: sample_dns_def)
qed

text \<open>
  The code for too many answers is never returned: with the eight records there
  are, the store behind the array comes first.
\<close>

lemma dns_too_large_never_returned:
  assumes "length (dns_records dns) = 8"
  shows "dns_receive dns received \<noteq> Inr (6, dns')"
proof
  assume r: "dns_receive dns received = Inr (6, dns')"
  then obtain datagram sender where "received = Some (datagram, sender)"
    by (cases received) (auto simp: dns_receive_def)
  then show False
    using r parse_answers_never_6 [of "dns_records dns"] assms
    by (auto simp: dns_receive_def Let_def cbind_Inr_iff split: if_splits)
qed

text \<open>
  An owner name that is not compressed is not skipped: when its first label starts
  with a letter, the parser goes on right behind that letter, inside the name.
\<close>

lemma dns_plain_name_misread:
  assumes "payload = pre @ l # ch # rest" "l \<noteq> 0" "l < 64" "64 \<le> ch"
  shows "skip_name payload (length pre) = Inr (length pre + 2)"
proof -
  have top: "(b :: byte) AND 0xc0 = 0 \<longleftrightarrow> b < 64" for b
  proof -
    have "(0xc0 :: byte) = NOT 0x3f" by simp
    then have "unat (b AND 0xc0) = unat b - unat b mod 64" using unat_and_not_3f [of b] by (simp only:)
    moreover have "unat b - unat b mod 64 = 0 \<longleftrightarrow> unat b < 64"
      using mod_less_divisor [of 64 "unat b"] by (cases "unat b < 64") (simp, linarith)
    ultimately have "unat (b AND 0xc0) = 0 \<longleftrightarrow> unat b < 64" by simp
    then show ?thesis by (simp add: word_less_nat_alt unat_eq_0)
  qed
  have "ch \<noteq> 0" using assms(4) by auto
  then have "skip_name payload (length pre + 1) = Inr (length pre + 2)"
    using assms top [of ch] by (subst skip_name.simps) (simp add: nth_append not_less)
  then show ?thesis
    using assms top [of l] by (subst skip_name.simps) (simp add: nth_append)
qed

end
