(* ===== verification/Relay.thy ===== *)
theory Relay
  imports CFormat "HOL-Library.Sublist"
begin

text \<open>
  packages/lifeline/lifeline.c, \<open>splice\<close> and \<open>forward_loop\<close>: the loop that copies bytes
  between two sockets. The system's answers (\<open>poll\<close>, \<open>read\<close>, \<open>write\<close>) are
  inputs, one record for each round of the loop. The step relation has one step for each
  decision inside a round; the function and the relation are shown to have the same runs.
\<close>

section \<open>The state of the two sockets\<close>

text \<open>
  Of each socket the bytes that will arrive and are not read yet, and the bytes written so
  far.
\<close>

record relay =
  in1 :: "byte list"
  out1 :: "byte list"
  in2 :: "byte list"
  out2 :: "byte list"

section \<open>One copy\<close>

text \<open>
  \<open>got\<close> is what \<open>read\<close> of up to 1024 bytes returns and \<open>put\<close> what \<open>write\<close> of these
  bytes returns. The result is the return value, what is left to read and what has been
  written.
\<close>

definition splice_fd :: "int \<Rightarrow> int \<Rightarrow> byte list \<Rightarrow> byte list \<Rightarrow> int \<times> byte list \<times> byte list" where
  "splice_fd got put inp out =
     (if got < 1 then (got, inp, out)
      else (put, drop (nat got) inp, out @ take (nat put) (take (nat got) inp)))"

definition splice_ok :: "int \<Rightarrow> int \<Rightarrow> byte list \<Rightarrow> bool" where
  "splice_ok got put inp \<longleftrightarrow> got \<le> 1024 \<and> got \<le> int (length inp) \<and> put \<le> got"

section \<open>The loop\<close>

text \<open>
  The answers of the system in one round. \<open>rd_sigpipe\<close> tells whether a \<open>write\<close> that fails
  does so because the peer is gone: then SIGPIPE comes with it, which the program leaves at
  its default action.
\<close>

record round =
  rd_poll :: int
  rd_ready1 :: bool
  rd_ready2 :: bool
  rd_read1 :: int
  rd_write1 :: int
  rd_read2 :: int
  rd_write2 :: int
  rd_sigpipe :: bool

text \<open>The loop ends by \<open>return\<close>, by \<open>exit\<close> or by the signal.\<close>

datatype loop_end = Returned | Exited int | Killed

definition splice_end :: "int \<Rightarrow> int \<Rightarrow> bool \<Rightarrow> loop_end" where
  "splice_end got put sigpipe = (if 1 \<le> got \<and> put < 0 \<and> sigpipe then Killed else Returned)"

definition splice_12 :: "round \<Rightarrow> relay \<Rightarrow> int \<times> relay" where
  "splice_12 rd s =
     (let (n, i, w) = splice_fd (rd_read1 rd) (rd_write1 rd) (in1 s) (out2 s)
      in (n, s\<lparr>in1 := i, out2 := w\<rparr>))"

definition splice_21 :: "round \<Rightarrow> relay \<Rightarrow> int \<times> relay" where
  "splice_21 rd s =
     (let (n, i, w) = splice_fd (rd_read2 rd) (rd_write2 rd) (in2 s) (out1 s)
      in (n, s\<lparr>in2 := i, out1 := w\<rparr>))"

text \<open>One round: \<open>None\<close> when the loop goes on.\<close>

definition forward_round :: "round \<Rightarrow> relay \<Rightarrow> loop_end option \<times> relay" where
  "forward_round rd s =
     (if rd_poll rd < 1 then (Some (Exited (rd_poll rd)), s)
      else let (n1, s1) = (if rd_ready1 rd then splice_12 rd s else (1, s))
           in if n1 < 1 then (Some (splice_end (rd_read1 rd) (rd_write1 rd) (rd_sigpipe rd)), s1)
              else let (n2, s2) = (if rd_ready2 rd then splice_21 rd s1 else (1, s1))
                   in if n2 < 1 then (Some (splice_end (rd_read2 rd) (rd_write2 rd) (rd_sigpipe rd)), s2)
                      else (None, s2))"

fun forward_loop :: "round list \<Rightarrow> relay \<Rightarrow> loop_end option \<times> relay" where
  "forward_loop [] s = (None, s)"
| "forward_loop (rd # rds) s =
     (case forward_round rd s of
        (None, s') \<Rightarrow> forward_loop rds s'
      | (Some e, s') \<Rightarrow> (Some e, s'))"

text \<open>
  What the system can answer in a state: a successful \<open>poll\<close> reports a socket, a \<open>read\<close>
  returns at most what was asked for and what is there, a \<open>write\<close> at most what it was given.
\<close>

definition round_ok :: "relay \<Rightarrow> round \<Rightarrow> bool" where
  "round_ok s rd \<longleftrightarrow> (rd_poll rd \<ge> 1 \<longrightarrow> rd_ready1 rd \<or> rd_ready2 rd) \<and>
     splice_ok (rd_read1 rd) (rd_write1 rd) (in1 s) \<and> splice_ok (rd_read2 rd) (rd_write2 rd) (in2 s)"

fun rounds_ok :: "round list \<Rightarrow> relay \<Rightarrow> bool" where
  "rounds_ok [] s \<longleftrightarrow> True"
| "rounds_ok (rd # rds) s \<longleftrightarrow> round_ok s rd \<and>
     (case forward_round rd s of (None, s') \<Rightarrow> rounds_ok rds s' | (Some e, s') \<Rightarrow> rds = [])"

section \<open>The loop as a state machine\<close>

text \<open>Where the loop is: before \<open>poll\<close>, before one of the two tests of \<open>revents\<close>, or over.\<close>

datatype point = Polling | Test1 bool bool | Test2 bool | Over loop_end

inductive relay_step :: "point \<times> relay \<Rightarrow> point \<times> relay \<Rightarrow> bool" where
  poll: "r1 \<or> r2 \<Longrightarrow> relay_step (Polling, s) (Test1 r1 r2, s)"
| poll_fails: "ret < 1 \<Longrightarrow> relay_step (Polling, s) (Over (Exited ret), s)"
| idle1: "relay_step (Test1 False r2, s) (Test2 r2, s)"
| move1: "in1 s = chunk @ rest \<Longrightarrow> length chunk \<le> 1024 \<Longrightarrow> 1 \<le> n \<Longrightarrow> n \<le> length chunk \<Longrightarrow>
    relay_step (Test1 True r2, s) (Test2 r2, s\<lparr>in1 := rest, out2 := out2 s @ take n chunk\<rparr>)"
| read_ends1: "relay_step (Test1 True r2, s) (Over Returned, s)"
| write_ends1: "in1 s = chunk @ rest \<Longrightarrow> length chunk \<le> 1024 \<Longrightarrow> chunk \<noteq> [] \<Longrightarrow>
    e \<in> {Returned, Killed} \<Longrightarrow> relay_step (Test1 True r2, s) (Over e, s\<lparr>in1 := rest\<rparr>)"
| idle2: "relay_step (Test2 False, s) (Polling, s)"
| move2: "in2 s = chunk @ rest \<Longrightarrow> length chunk \<le> 1024 \<Longrightarrow> 1 \<le> n \<Longrightarrow> n \<le> length chunk \<Longrightarrow>
    relay_step (Test2 True, s) (Polling, s\<lparr>in2 := rest, out1 := out1 s @ take n chunk\<rparr>)"
| read_ends2: "relay_step (Test2 True, s) (Over Returned, s)"
| write_ends2: "in2 s = chunk @ rest \<Longrightarrow> length chunk \<le> 1024 \<Longrightarrow> chunk \<noteq> [] \<Longrightarrow>
    e \<in> {Returned, Killed} \<Longrightarrow> relay_step (Test2 True, s) (Over e, s\<lparr>in2 := rest\<rparr>)"

inductive_cases PollingE: "relay_step (Polling, s) c"
inductive_cases Test1E: "relay_step (Test1 r1 r2, s) c"
inductive_cases Test2E: "relay_step (Test2 r2, s) c"
inductive_simps Over_stuck [simp]: "relay_step (Over e, s) c"

text \<open>Where the loop is after rounds with a result.\<close>

fun point_of :: "loop_end option \<Rightarrow> point" where
  "point_of None = Polling"
| "point_of (Some e) = Over e"

lemma splice_cases:
  assumes "splice_ok got put inp" "splice_fd got put inp out = (n, inp', out')"
  obtains (ended) "got < 1" "n = got" "inp' = inp" "out' = out"
  | (copied) chunk where "inp = chunk @ inp'" "chunk \<noteq> []" "length chunk \<le> 1024" "int (length chunk) = got"
      "n = put" "put \<le> int (length chunk)" "out' = out @ take (nat put) chunk"
proof (cases "got < 1")
  case True
  then have "n = got" "inp' = inp" "out' = out" using assms(2) by (simp_all add: splice_fd_def)
  then show thesis using True ended by blast
next
  case False
  have r: "n = put" "inp' = drop (nat got) inp" "out' = out @ take (nat put) (take (nat got) inp)"
    using assms(2) False by (auto simp: splice_fd_def)
  have g: "nat got \<le> length inp" "nat got \<le> 1024" "put \<le> got"
    using assms(1) by (simp_all add: splice_ok_def nat_le_iff)
  show thesis
  proof (rule copied)
    show "inp = take (nat got) inp @ inp'" using r by simp
    have "length (take (nat got) inp) = nat got" using g by simp
    then show "take (nat got) inp \<noteq> []" "length (take (nat got) inp) \<le> 1024"
        "int (length (take (nat got) inp)) = got" "put \<le> int (length (take (nat got) inp))"
      using False g by auto
  qed (use r in simp_all)
qed

lemma splice_end_cases: "splice_end got put b \<in> {Returned, Killed}"
  by (simp add: splice_end_def)

text \<open>The test of one socket, as the steps that may happen there.\<close>

lemma splice_12_step:
  assumes "splice_ok (rd_read1 rd) (rd_write1 rd) (in1 s)" "splice_12 rd s = (n, s')"
  shows "relay_step (Test1 True r2, s)
     (if n < 1 then Over (splice_end (rd_read1 rd) (rd_write1 rd) b) else Test2 r2, s')"
proof -
  obtain i w where sp: "splice_fd (rd_read1 rd) (rd_write1 rd) (in1 s) (out2 s) = (n, i, w)"
      and s': "s' = s\<lparr>in1 := i, out2 := w\<rparr>"
    using assms(2) by (auto simp: splice_12_def Let_def split: prod.splits)
  show ?thesis
    using assms(1) sp
  proof (cases rule: splice_cases)
    case ended
    then show ?thesis using s' by (simp add: read_ends1 splice_end_def)
  next
    case (copied chunk)
    show ?thesis
    proof (cases "n < 1")
      case True
      then have "s' = s\<lparr>in1 := i\<rparr>" using s' copied by simp
      then show ?thesis
        using copied True write_ends1 [OF _ _ _ splice_end_cases, of s chunk i] by simp
    next
      case False
      then show ?thesis
        using copied s' move1 [of s chunk i "nat (rd_write1 rd)"] by (simp add: nat_le_iff)
    qed
  qed
qed

lemma splice_21_step:
  assumes "splice_ok (rd_read2 rd) (rd_write2 rd) (in2 s)" "splice_21 rd s = (n, s')"
  shows "relay_step (Test2 True, s)
     (if n < 1 then Over (splice_end (rd_read2 rd) (rd_write2 rd) b) else Polling, s')"
proof -
  obtain i w where sp: "splice_fd (rd_read2 rd) (rd_write2 rd) (in2 s) (out1 s) = (n, i, w)"
      and s': "s' = s\<lparr>in2 := i, out1 := w\<rparr>"
    using assms(2) by (auto simp: splice_21_def Let_def split: prod.splits)
  show ?thesis
    using assms(1) sp
  proof (cases rule: splice_cases)
    case ended
    then show ?thesis using s' by (simp add: read_ends2 splice_end_def)
  next
    case (copied chunk)
    show ?thesis
    proof (cases "n < 1")
      case True
      then have "s' = s\<lparr>in2 := i\<rparr>" using s' copied by simp
      then show ?thesis
        using copied True write_ends2 [OF _ _ _ splice_end_cases, of s chunk i] by simp
    next
      case False
      then show ?thesis
        using copied s' move2 [of s chunk i "nat (rd_write2 rd)"] by (simp add: nat_le_iff)
    qed
  qed
qed

section \<open>The function runs the state machine\<close>

lemma splice_12_in2: "splice_12 rd s = (n, s') \<Longrightarrow> in2 s' = in2 s"
  by (auto simp: splice_12_def Let_def split: prod.splits)

lemma forward_round_steps:
  assumes ok: "round_ok s rd" and r: "forward_round rd s = (e, s')"
  shows "relay_step\<^sup>*\<^sup>* (Polling, s) (point_of e, s')"
proof (cases "rd_poll rd < 1")
  case True
  then show ?thesis using r poll_fails [OF True, of s] by (auto simp: forward_round_def)
next
  case False
  let ?r1 = "rd_ready1 rd" and ?r2 = "rd_ready2 rd"
  have ok1: "splice_ok (rd_read1 rd) (rd_write1 rd) (in1 s)" and ok2: "splice_ok (rd_read2 rd) (rd_write2 rd) (in2 s)"
      and "?r1 \<or> ?r2"
    using ok False by (auto simp: round_ok_def)
  then have first: "relay_step (Polling, s) (Test1 ?r1 ?r2, s)" by (intro poll)
  obtain n1 s1 where one: "(if ?r1 then splice_12 rd s else (1, s)) = (n1, s1)" by fastforce
  have in2: "in2 s1 = in2 s" using one by (auto split: if_splits dest: splice_12_in2)
  let ?e1 = "splice_end (rd_read1 rd) (rd_write1 rd) (rd_sigpipe rd)"
  let ?e2 = "splice_end (rd_read2 rd) (rd_write2 rd) (rd_sigpipe rd)"
  have second: "relay_step (Test1 ?r1 ?r2, s) (if n1 < 1 then Over ?e1 else Test2 ?r2, s1)"
    using one splice_12_step [OF ok1, of n1 s1 ?r2] idle1 [of ?r2 s] by (cases ?r1) auto
  show ?thesis
  proof (cases "n1 < 1")
    case True
    then have "e = Some ?e1" "s' = s1" using r one False by (auto simp: forward_round_def Let_def)
    then show ?thesis using first second True by (auto intro: converse_rtranclp_into_rtranclp)
  next
    case n1: False
    obtain n2 s2 where two: "(if ?r2 then splice_21 rd s1 else (1, s1)) = (n2, s2)" by fastforce
    have "relay_step (Test2 ?r2, s1) (if n2 < 1 then Over ?e2 else Polling, s2)"
      using two splice_21_step [of rd s1 n2 s2] ok2 in2 idle2 [of s1] by (cases ?r2) auto
    moreover have "e = (if n2 < 1 then Some ?e2 else None)" "s' = s2"
      using r one two False n1 by (auto simp: forward_round_def Let_def split: if_splits)
    ultimately show ?thesis
      using first second n1 by (auto intro: converse_rtranclp_into_rtranclp)
  qed
qed

lemma forward_loop_steps:
  "rounds_ok rds s \<Longrightarrow> forward_loop rds s = (e, s') \<Longrightarrow> relay_step\<^sup>*\<^sup>* (Polling, s) (point_of e, s')"
proof (induction rds arbitrary: s)
  case (Cons rd rds)
  obtain e1 s1 where r: "forward_round rd s = (e1, s1)" by fastforce
  then have one: "relay_step\<^sup>*\<^sup>* (Polling, s) (point_of e1, s1)"
    using forward_round_steps [OF _ r] Cons.prems(1) by simp
  show ?case
  proof (cases e1)
    case None
    then have "relay_step\<^sup>*\<^sup>* (Polling, s1) (point_of e, s')" using Cons r by simp
    then show ?thesis using one None by (simp add: rtranclp_trans)
  next
    case (Some x)
    then show ?thesis using one Cons.prems(2) r by auto
  qed
qed simp

section \<open>Every run of the state machine is one of the function\<close>

lemma forward_loop_snoc:
  "forward_loop rds s = (None, s') \<Longrightarrow> forward_loop (rds @ [rd]) s = forward_round rd s'"
  by (induction rds arbitrary: s) (auto split: prod.splits option.splits)

lemma rounds_ok_snoc:
  "forward_loop rds s = (None, s') \<Longrightarrow> rounds_ok rds s \<Longrightarrow> round_ok s' rd \<Longrightarrow> rounds_ok (rds @ [rd]) s"
  by (induction rds arbitrary: s) (auto split: prod.splits option.splits)

text \<open>
  What the rounds before a point explain: all of the state, or, between the two tests, that
  of a round whose first half is over.
\<close>

fun explained :: "relay \<Rightarrow> point \<times> relay \<Rightarrow> bool" where
  "explained s (Polling, s') \<longleftrightarrow> (\<exists>rds. rounds_ok rds s \<and> forward_loop rds s = (None, s'))"
| "explained s (Test1 r1 r2, s') \<longleftrightarrow> (r1 \<or> r2) \<and> (\<exists>rds. rounds_ok rds s \<and> forward_loop rds s = (None, s'))"
| "explained s (Test2 r2, s') \<longleftrightarrow>
     (\<exists>rds s0 rd n. rounds_ok rds s \<and> forward_loop rds s = (None, s0) \<and>
        splice_ok (rd_read1 rd) (rd_write1 rd) (in1 s0) \<and> (rd_ready1 rd \<or> r2) \<and>
        (if rd_ready1 rd then splice_12 rd s0 else (1, s0)) = (n, s') \<and> 1 \<le> n)"
| "explained s (Over e, s') \<longleftrightarrow> (\<exists>rds. rounds_ok rds s \<and> forward_loop rds s = (Some e, s'))"

lemma explained_round:
  assumes "rounds_ok rds s" "forward_loop rds s = (None, s0)" "round_ok s0 rd" "forward_round rd s0 = (e, s')"
  shows "explained s (point_of e, s')"
  using assms rounds_ok_snoc [OF assms(2,1,3)] forward_loop_snoc [OF assms(2), of rd] by (cases e) auto

lemma splice_read:
  "inp = chunk @ rest \<Longrightarrow> chunk \<noteq> [] \<Longrightarrow>
     splice_fd (int (length chunk)) put inp out = (put, rest, out @ take (nat put) chunk)"
  by (simp add: splice_fd_def)

definition silent :: round where
  "silent = \<lparr>rd_poll = 1, rd_ready1 = False, rd_ready2 = False, rd_read1 = 0, rd_write1 = 0,
     rd_read2 = 0, rd_write2 = 0, rd_sigpipe = False\<rparr>"

lemma splice_ok_0 [simp]: "splice_ok 0 0 inp"
  by (simp add: splice_ok_def)

lemma splice_12_second [simp]:
  "splice_12 (rd\<lparr>rd_poll := p, rd_ready2 := b, rd_read2 := g, rd_write2 := w, rd_sigpipe := k\<rparr>) s = splice_12 rd s"
  by (simp add: splice_12_def)

lemma explained_second:
  assumes "explained s (Test2 r2, s1)" "splice_ok got put (in2 s1)"
    and "splice_fd got put (in2 s1) (out1 s1) = (n2, i, w)"
  shows "r2 \<Longrightarrow> explained s (if n2 < 1 then Over (splice_end got put k) else Polling, s1\<lparr>in2 := i, out1 := w\<rparr>)"
    and "\<not> r2 \<Longrightarrow> explained s (Polling, s1)"
proof -
  obtain rds s0 rd n where h: "rounds_ok rds s" "forward_loop rds s = (None, s0)"
      "splice_ok (rd_read1 rd) (rd_write1 rd) (in1 s0)" "rd_ready1 rd \<or> r2" "1 \<le> n"
      "(if rd_ready1 rd then splice_12 rd s0 else (1, s0)) = (n, s1)"
    using assms(1) by auto
  let ?rd = "rd\<lparr>rd_poll := 1, rd_ready2 := r2, rd_read2 := got, rd_write2 := put, rd_sigpipe := k\<rparr>"
  have "in2 s1 = in2 s0" using h(6) by (auto split: if_splits dest: splice_12_in2)
  then have ok: "round_ok s0 ?rd" using h(3,4) assms(2) by (simp add: round_ok_def)
  have one: "(if rd_ready1 ?rd then splice_12 ?rd s0 else (1, s0)) = (n, s1)" using h(6) by (auto split: if_splits)
  have two: "splice_21 ?rd s1 = (n2, s1\<lparr>in2 := i, out1 := w\<rparr>)" using assms(3) by (simp add: splice_21_def)
  show "explained s (if n2 < 1 then Over (splice_end got put k) else Polling, s1\<lparr>in2 := i, out1 := w\<rparr>)" if r2
  proof -
    have "forward_round ?rd s0 = (if n2 < 1 then Some (splice_end got put k) else None, s1\<lparr>in2 := i, out1 := w\<rparr>)"
      using one two h(5) that unfolding forward_round_def one by simp
    from explained_round [OF h(1,2) ok this] show ?thesis by (simp split: if_splits)
  qed
  show "explained s (Polling, s1)" if "\<not> r2"
  proof -
    have "forward_round ?rd s0 = (None, s1)"
      using one h(5) that unfolding forward_round_def one by simp
    from explained_round [OF h(1,2) ok this] show ?thesis by simp
  qed
qed

lemma explained_step: "relay_step c c' \<Longrightarrow> explained s c \<Longrightarrow> explained s c'"
proof (induction rule: relay_step.induct)
  case (poll r1 r2 t)
  then show ?case by simp
next
  case (poll_fails ret t)
  then obtain rds where "rounds_ok rds s" "forward_loop rds s = (None, t)" by auto
  then show ?case
    using explained_round [of rds s t "silent\<lparr>rd_poll := ret\<rparr>" "Some (Exited ret)" t] poll_fails(1)
    by (simp add: round_ok_def forward_round_def silent_def)
next
  case (idle1 r2 t)
  then obtain rds where "rounds_ok rds s" "forward_loop rds s = (None, t)" r2 by auto
  then show ?case
    unfolding explained.simps by (intro exI [of _ rds] exI [of _ t] exI [of _ silent] exI [of _ 1]) (simp add: silent_def)
next
  case (move1 t chunk rest n r2)
  then obtain rds where "rounds_ok rds s" "forward_loop rds s = (None, t)" by auto
  moreover let ?rd = "silent\<lparr>rd_ready1 := True, rd_read1 := int (length chunk), rd_write1 := int n\<rparr>"
  have "chunk \<noteq> []" using move1 by auto
  then have "splice_12 ?rd t = (int n, t\<lparr>in1 := rest, out2 := out2 t @ take n chunk\<rparr>)"
    using splice_read [OF move1(1)] by (simp add: splice_12_def)
  ultimately show ?case
    unfolding explained.simps using move1
    by (intro exI [of _ rds] exI [of _ t] exI [of _ ?rd] exI [of _ "int n"]) (simp add: splice_ok_def)
next
  case (read_ends1 r2 t)
  then obtain rds where "rounds_ok rds s" "forward_loop rds s = (None, t)" by auto
  then show ?case
    using explained_round [of rds s t "silent\<lparr>rd_ready1 := True\<rparr>" "Some Returned" t]
    by (simp add: round_ok_def forward_round_def silent_def splice_12_def splice_fd_def splice_end_def)
next
  case (write_ends1 t chunk rest e r2)
  then obtain rds where rds: "rounds_ok rds s" "forward_loop rds s = (None, t)" by auto
  let ?rd = "silent\<lparr>rd_ready1 := True, rd_read1 := int (length chunk), rd_write1 := -1, rd_sigpipe := (e = Killed)\<rparr>"
  have "splice_12 ?rd t = (-1, t\<lparr>in1 := rest\<rparr>)"
    using splice_read [OF write_ends1(1,3), of "-1"] by (simp add: splice_12_def silent_def)
  moreover have "1 \<le> int (length chunk)" using write_ends1(3) by (cases chunk) simp_all
  ultimately have "forward_round ?rd t = (Some e, t\<lparr>in1 := rest\<rparr>)"
    using write_ends1(4) by (auto simp: forward_round_def silent_def splice_end_def)
  moreover have "round_ok t ?rd" using write_ends1 by (simp add: round_ok_def silent_def splice_ok_def)
  ultimately show ?case using explained_round [OF rds] by fastforce
next
  case (idle2 t)
  then show ?case using explained_second(2) [OF idle2 splice_ok_0] by (simp add: splice_fd_def)
next
  case (move2 t chunk rest n)
  have "chunk \<noteq> []" using move2 by auto
  then show ?case
    using explained_second(1) [OF move2(5) _ splice_read [OF move2(1)], of "int n"] move2
    by (auto simp: splice_ok_def)
next
  case (read_ends2 t)
  then show ?case
    using explained_second(1) [OF read_ends2 splice_ok_0, of 0 "in2 t" "out1 t"] by (simp add: splice_fd_def splice_end_def)
next
  case (write_ends2 t chunk rest e)
  have "1 \<le> int (length chunk)" using write_ends2(3) by (cases chunk) simp_all
  then have "splice_end (int (length chunk)) (-1) (e = Killed) = e"
    using write_ends2(4) by (auto simp: splice_end_def)
  then show ?case
    using explained_second(1) [OF write_ends2(5) _ splice_read [OF write_ends2(1,3)], of "-1" "e = Killed"] write_ends2
    by (auto simp: splice_ok_def)
qed

lemma explained_run: "relay_step\<^sup>*\<^sup>* (Polling, s) c \<Longrightarrow> explained s c"
proof (induction rule: rtranclp_induct)
  case base
  then show ?case by (auto intro: exI [of _ "[]"])
qed (blast intro: explained_step)

section \<open>A stream that is read at one end and written at the other\<close>

text \<open>
  One direction of a relay over any notion of step: what a step reads is taken from the
  front, what it writes is appended and is part of what it read, in the same order.
\<close>

locale pipe =
  fixes inp :: "'s \<Rightarrow> byte list" and out :: "'s \<Rightarrow> byte list" and step :: "'s \<Rightarrow> 's \<Rightarrow> bool"
  assumes copies: "step s s' \<Longrightarrow> \<exists>got put. inp s = got @ inp s' \<and> out s' = out s @ put \<and> subseq put got"
begin

lemma run_copies: "step\<^sup>*\<^sup>* s s' \<Longrightarrow> \<exists>got put. inp s = got @ inp s' \<and> out s' = out s @ put \<and> subseq put got"
proof (induction rule: rtranclp_induct)
  case base
  then show ?case by (intro exI [of _ "[]"]) simp
next
  case (step t u)
  then obtain g p where t: "inp s = g @ inp t" "out t = out s @ p" "subseq p g" by auto
  obtain g' p' where u: "inp t = g' @ inp u" "out u = out t @ p'" "subseq p' g'"
    using copies [OF step(2)] by auto
  have "subseq (p @ p') (g @ g')" using t(3) u(3) by (rule list_emb_append_mono)
  then show ?case using t u by (intro exI [of _ "g @ g'"] exI [of _ "p @ p'"]) simp
qed

lemma run_prefix: "step\<^sup>*\<^sup>* s s' \<Longrightarrow> prefix (out s) (out s') \<and> suffix (inp s') (inp s)"
  using run_copies [of s s'] by (auto simp: suffix_def)

end

text \<open>The same when everything read is written.\<close>

locale full_pipe =
  fixes inp :: "'s \<Rightarrow> byte list" and out :: "'s \<Rightarrow> byte list" and step :: "'s \<Rightarrow> 's \<Rightarrow> bool"
  assumes passes: "step s s' \<Longrightarrow> \<exists>got. inp s = got @ inp s' \<and> out s' = out s @ got"

sublocale full_pipe \<subseteq> pipe
  by unfold_locales (blast dest: passes)

context full_pipe
begin

lemma step_keeps: "step s s' \<Longrightarrow> out s' @ inp s' = out s @ inp s"
  using passes by fastforce

lemma run_keeps: "step\<^sup>*\<^sup>* s s' \<Longrightarrow> out s' @ inp s' = out s @ inp s"
  by (induction rule: rtranclp_induct) (simp_all add: step_keeps)

end

lemma subseq_take [simp]: "subseq (take n xs) xs"
  by (rule prefix_imp_subseq) (rule take_is_prefix)

interpretation one: pipe "\<lambda>c. in1 (snd c)" "\<lambda>c. out2 (snd c)" relay_step
  by unfold_locales (auto elim!: relay_step.cases)

interpretation two: pipe "\<lambda>c. in2 (snd c)" "\<lambda>c. out1 (snd c)" relay_step
  by unfold_locales (auto elim!: relay_step.cases)

text \<open>A round in which every \<open>write\<close> takes all it was given.\<close>

definition complete :: "round \<Rightarrow> bool" where
  "complete rd \<longleftrightarrow> rd_write1 rd = rd_read1 rd \<and> rd_write2 rd = rd_read2 rd"

definition full_step :: "relay \<Rightarrow> relay \<Rightarrow> bool" where
  "full_step s s' \<longleftrightarrow> (\<exists>rd e. complete rd \<and> round_ok s rd \<and> forward_round rd s = (e, s'))"

lemma splice_full:
  "splice_ok n n inp \<Longrightarrow> splice_fd n n inp out = (m, inp', out') \<Longrightarrow> \<exists>got. inp = got @ inp' \<and> out' = out @ got"
  by (erule splice_cases) auto

lemma splice_12_full:
  "splice_12 rd s = (n, s') \<Longrightarrow> complete rd \<Longrightarrow> splice_ok (rd_read1 rd) (rd_write1 rd) (in1 s) \<Longrightarrow>
     (\<exists>got. in1 s = got @ in1 s' \<and> out2 s' = out2 s @ got) \<and> in2 s' = in2 s \<and> out1 s' = out1 s"
  by (auto simp: splice_12_def complete_def Let_def split: prod.splits dest: splice_full)

lemma splice_21_full:
  "splice_21 rd s = (n, s') \<Longrightarrow> complete rd \<Longrightarrow> splice_ok (rd_read2 rd) (rd_write2 rd) (in2 s) \<Longrightarrow>
     (\<exists>got. in2 s = got @ in2 s' \<and> out1 s' = out1 s @ got) \<and> in1 s' = in1 s \<and> out2 s' = out2 s"
  by (auto simp: splice_21_def complete_def Let_def split: prod.splits dest: splice_full)

lemma full_round:
  assumes "forward_round rd s = (e, s')" "complete rd" "round_ok s rd"
  shows "(\<exists>got. in1 s = got @ in1 s' \<and> out2 s' = out2 s @ got) \<and>
     (\<exists>got. in2 s = got @ in2 s' \<and> out1 s' = out1 s @ got)"
proof -
  have ok: "splice_ok (rd_read1 rd) (rd_write1 rd) (in1 s)" "splice_ok (rd_read2 rd) (rd_write2 rd) (in2 s)"
    using assms(3) by (simp_all add: round_ok_def)
  obtain n1 s1 where one: "(if rd_ready1 rd then splice_12 rd s else (1, s)) = (n1, s1)" by fastforce
  then have h1: "(\<exists>got. in1 s = got @ in1 s1 \<and> out2 s1 = out2 s @ got)" "in2 s1 = in2 s" "out1 s1 = out1 s"
    using splice_12_full [OF _ assms(2) ok(1)] by (auto split: if_splits)
  obtain n2 s2 where two: "(if rd_ready2 rd then splice_21 rd s1 else (1, s1)) = (n2, s2)" by fastforce
  then have h2: "(\<exists>got. in2 s1 = got @ in2 s2 \<and> out1 s2 = out1 s1 @ got)" "in1 s2 = in1 s1" "out2 s2 = out2 s1"
    using splice_21_full [of rd s1 n2 s2] assms(2) ok(2) h1(2) by (auto split: if_splits)
  have "s' = s \<or> s' = s1 \<or> s' = s2"
    using assms(1) one two by (auto simp: forward_round_def Let_def split: if_splits)
  then show ?thesis using h1 h2 by auto
qed

interpretation full_12: full_pipe in1 out2 full_step
  by unfold_locales (auto simp: full_step_def dest: full_round)

interpretation full_21: full_pipe in2 out1 full_step
  by unfold_locales (auto simp: full_step_def dest: full_round)

lemma forward_loop_full_steps:
  "rounds_ok rds s \<Longrightarrow> \<forall>rd \<in> set rds. complete rd \<Longrightarrow> forward_loop rds s = (e, s') \<Longrightarrow> full_step\<^sup>*\<^sup>* s s'"
proof (induction rds arbitrary: s)
  case (Cons rd rds)
  obtain e1 s1 where r: "forward_round rd s = (e1, s1)" by fastforce
  then have one: "full_step s s1" using Cons.prems by (auto simp: full_step_def)
  show ?case
    using Cons r one by (cases e1) (auto intro: converse_rtranclp_into_rtranclp)
qed simp

section \<open>Progress\<close>

definition pending :: "relay \<Rightarrow> nat" where
  "pending s = length (in1 s) + length (in2 s)"

lemma forward_round_progress:
  assumes "forward_round rd s = (None, s')" "round_ok s rd"
  shows "pending s' < pending s"
proof -
  have ok: "splice_ok (rd_read1 rd) (rd_write1 rd) (in1 s)" "splice_ok (rd_read2 rd) (rd_write2 rd) (in2 s)"
    using assms(2) by (simp_all add: round_ok_def)
  have p: "\<not> rd_poll rd < 1" using assms(1) by (auto simp: forward_round_def)
  then have ready: "rd_ready1 rd \<or> rd_ready2 rd" using assms(2) by (simp add: round_ok_def)
  have moves: "length inp' < length inp" if "splice_fd g w inp out = (n, inp', out')" "\<not> n < 1" "splice_ok g w inp"
    for g w inp out n inp' out'
    using that(3,1) by (cases rule: splice_cases) (use that(2) in auto)
  obtain n1 s1 where one: "(if rd_ready1 rd then splice_12 rd s else (1, s)) = (n1, s1)" by fastforce
  obtain n2 s2 where two: "(if rd_ready2 rd then splice_21 rd s1 else (1, s1)) = (n2, s2)" by fastforce
  have n: "\<not> n1 < 1" "\<not> n2 < 1" "s' = s2"
    using assms(1) p one two by (auto simp: forward_round_def Let_def split: if_splits)
  have m1: "in2 s1 = in2 s" "rd_ready1 rd \<Longrightarrow> length (in1 s1) < length (in1 s)" "\<not> rd_ready1 rd \<Longrightarrow> s1 = s"
    using one n(1) moves [OF _ _ ok(1)] by (auto simp: splice_12_def Let_def split: prod.splits if_splits)
  then have ok2: "splice_ok (rd_read2 rd) (rd_write2 rd) (in2 s1)" using ok(2) by simp
  have m2: "in1 s2 = in1 s1" "rd_ready2 rd \<Longrightarrow> length (in2 s2) < length (in2 s1)" "\<not> rd_ready2 rd \<Longrightarrow> s2 = s1"
    using two n(2) moves [OF _ _ ok2] by (auto simp: splice_21_def Let_def split: prod.splits if_splits)
  show ?thesis
    using m1 m2 ready n(3) by (cases "rd_ready1 rd"; cases "rd_ready2 rd") (auto simp: pending_def)
qed

lemma forward_loop_rounds:
  "forward_loop rds s = (None, s') \<Longrightarrow> rounds_ok rds s \<Longrightarrow> pending s' + length rds \<le> pending s"
proof (induction rds arbitrary: s)
  case (Cons rd rds)
  then obtain s1 where r: "forward_round rd s = (None, s1)" by (auto split: prod.splits option.splits)
  then have "pending s' + length rds \<le> pending s1" using Cons by simp
  then show ?case using forward_round_progress [OF r] Cons.prems(2) by simp
qed simp

section \<open>A tunnel that is served to its end\<close>

text \<open>
  Answers with which a tunnel works, as far as the loop asks for them: \<open>poll\<close> succeeds, every
  \<open>write\<close> is complete, the first socket is not closed while it is read, and the second is
  closed only when all it had to send has been read.
\<close>

fun serving :: "round list \<Rightarrow> relay \<Rightarrow> bool" where
  "serving [] s \<longleftrightarrow> True"
| "serving (rd # rds) s \<longleftrightarrow> round_ok s rd \<and> 1 \<le> rd_poll rd \<and> complete rd \<and>
     (rd_ready1 rd \<longrightarrow> 1 \<le> rd_read1 rd) \<and> (rd_ready2 rd \<and> rd_read2 rd < 1 \<longrightarrow> in2 s = []) \<and>
     (case forward_round rd s of (None, s') \<Rightarrow> serving rds s' | (Some e, s') \<Rightarrow> True)"

text \<open>A round that ends the loop has read the end of the second socket, and nothing else.\<close>

lemma serving_round_ends:
  assumes "forward_round rd s = (Some e, s')" "1 \<le> rd_poll rd" "complete rd"
    and "rd_ready1 rd \<longrightarrow> 1 \<le> rd_read1 rd" "rd_ready2 rd \<and> rd_read2 rd < 1 \<longrightarrow> in2 s = []"
  shows "e = Returned \<and> in2 s' = []"
proof -
  obtain n1 s1 where one: "(if rd_ready1 rd then splice_12 rd s else (1, s)) = (n1, s1)" by fastforce
  obtain n2 s2 where two: "(if rd_ready2 rd then splice_21 rd s1 else (1, s1)) = (n2, s2)" by fastforce
  have "1 \<le> n1" "in2 s1 = in2 s"
    using one assms(3,4) by (auto simp: splice_12_def splice_fd_def complete_def split: if_splits)
  then have r: "n2 < 1" "e = splice_end (rd_read2 rd) (rd_write2 rd) (rd_sigpipe rd)" "s' = s2"
    using assms(1,2) one two by (auto simp: forward_round_def Let_def split: if_splits)
  then have "rd_ready2 rd" "rd_read2 rd < 1"
    using two assms(3) by (auto simp: splice_21_def splice_fd_def complete_def split: if_splits)
  then show ?thesis
    using two r assms(5) \<open>in2 s1 = in2 s\<close> by (auto simp: splice_21_def splice_fd_def splice_end_def)
qed

lemma serving_ends:
  "serving rds s \<Longrightarrow> pending s < length rds \<Longrightarrow>
     \<exists>s'. forward_loop rds s = (Some Returned, s') \<and> in2 s' = [] \<and> out1 s' = out1 s @ in2 s \<and>
       out2 s' @ in1 s' = out2 s @ in1 s"
proof (induction rds arbitrary: s)
  case (Cons rd rds)
  obtain e1 s1 where r: "forward_round rd s = (e1, s1)" by fastforce
  have ok: "round_ok s rd" "complete rd" using Cons.prems(1) by simp_all
  have keep: "out1 s1 @ in2 s1 = out1 s @ in2 s" "out2 s1 @ in1 s1 = out2 s @ in1 s"
    using full_round [OF r ok(2,1)] by auto
  show ?case
  proof (cases e1)
    case None
    then have "serving rds s1" "pending s1 < length rds"
      using Cons.prems r forward_round_progress [of rd s s1] ok(1) by auto
    from Cons.IH [OF this] show ?thesis using r None keep by auto
  next
    case (Some e)
    have "e = Returned \<and> in2 s1 = []"
      using serving_round_ends [of rd s e s1] Cons.prems(1) r Some by auto
    then show ?thesis using r Some keep by auto
  qed
qed simp

section \<open>Properties\<close>

text \<open>
  C23 (equivalence): the loop and the state machine have the same runs: from the first
  \<open>poll\<close> the machine reaches exactly the states that some answers of the system, possible
  in each state, lead the loop to, with the same end.
\<close>

theorem forward_loop_runs:
  "relay_step\<^sup>*\<^sup>* (Polling, s) (point_of e, s') \<longleftrightarrow> (\<exists>rds. rounds_ok rds s \<and> forward_loop rds s = (e, s'))"
proof
  assume "relay_step\<^sup>*\<^sup>* (Polling, s) (point_of e, s')"
  from explained_run [OF this] show "\<exists>rds. rounds_ok rds s \<and> forward_loop rds s = (e, s')" by (cases e) simp_all
next
  assume "\<exists>rds. rounds_ok rds s \<and> forward_loop rds s = (e, s')"
  then show "relay_step\<^sup>*\<^sup>* (Polling, s) (point_of e, s')" by (auto intro: forward_loop_steps)
qed

text \<open>
  C32 (invariant): the relay invents and reorders nothing. At every point of every run, what
  was written to each socket is a subsequence of what was read from the other, and the rest
  of the input is untouched.
\<close>

theorem relay_copies:
  assumes "relay_step\<^sup>*\<^sup>* (Polling, s) (p, s')"
  shows "(\<exists>got put. in1 s = got @ in1 s' \<and> out2 s' = out2 s @ put \<and> subseq put got) \<and>
     (\<exists>got put. in2 s = got @ in2 s' \<and> out1 s' = out1 s @ put \<and> subseq put got)"
  using one.run_copies [OF assms] two.run_copies [OF assms] by simp

definition sample_relay :: relay where
  "sample_relay = \<lparr>in1 = [1, 2, 3], out1 = [], in2 = [9], out2 = []\<rparr>"

theorem relay_copies_witness:
  "\<exists>got put. in1 sample_relay = got @ [3] \<and> [1] = out2 sample_relay @ put \<and> subseq put got"
proof -
  have "relay_step (Polling, sample_relay) (Test1 True False, sample_relay)" by (simp add: poll)
  moreover have "relay_step (Test1 True False, sample_relay)
      (Test2 False, sample_relay\<lparr>in1 := [3], out2 := out2 sample_relay @ take 1 [1, 2]\<rparr>)"
    by (rule move1) (simp_all add: sample_relay_def)
  ultimately have "relay_step\<^sup>*\<^sup>* (Polling, sample_relay)
      (Test2 False, sample_relay\<lparr>in1 := [3], out2 := out2 sample_relay @ take 1 [1, 2]\<rparr>)"
    by (auto intro: converse_rtranclp_into_rtranclp)
  from relay_copies [OF this] show ?thesis by (simp add: sample_relay_def)
qed

text \<open>
  C33 (functional): when every \<open>write\<close> takes all it is given, no byte is lost in either
  direction: what was written and what is still to be read make up the stream.
\<close>

theorem forward_loop_lossless:
  assumes "rounds_ok rds s" "\<forall>rd \<in> set rds. complete rd" "forward_loop rds s = (e, s')"
  shows "out2 s' @ in1 s' = out2 s @ in1 s \<and> out1 s' @ in2 s' = out1 s @ in2 s"
  using full_12.run_keeps full_21.run_keeps forward_loop_full_steps [OF assms] by blast

definition both_ways :: round where
  "both_ways = \<lparr>rd_poll = 2, rd_ready1 = True, rd_ready2 = True, rd_read1 = 2, rd_write1 = 2,
     rd_read2 = 1, rd_write2 = 1, rd_sigpipe = False\<rparr>"

lemmas run_simps = splice_end_def forward_round_def splice_12_def splice_21_def splice_fd_def round_ok_def splice_ok_def
  both_ways_def sample_relay_def silent_def

theorem forward_loop_lossless_witness:
  "snd (forward_loop [both_ways] sample_relay) = \<lparr>in1 = [3], out1 = [9], in2 = [], out2 = [1, 2]\<rparr> \<and>
   out2 (snd (forward_loop [both_ways] sample_relay)) @ [3] = [1, 2, 3]"
proof -
  have run: "forward_loop [both_ways] sample_relay = (None, \<lparr>in1 = [3], out1 = [9], in2 = [], out2 = [1, 2]\<rparr>)"
    by (simp add: run_simps)
  have "rounds_ok [both_ways] sample_relay" "\<forall>rd \<in> set [both_ways]. complete rd"
    by (simp_all add: run_simps complete_def)
  from forward_loop_lossless [OF this run] show ?thesis unfolding run by (simp add: sample_relay_def)
qed

text \<open>
  C34 (termination): every round that goes on moves a byte, so on a finite amount of input the
  loop is over after that many rounds and one more, as long as \<open>poll\<close> keeps answering.
\<close>

theorem forward_loop_ends:
  assumes "rounds_ok rds s" "length (in1 s) + length (in2 s) < length rds"
  shows "\<exists>e s'. forward_loop rds s = (Some e, s')"
proof -
  obtain e s' where r: "forward_loop rds s = (e, s')" by fastforce
  then show ?thesis
    using forward_loop_rounds [of rds s s'] assms by (cases e) (auto simp: pending_def)
qed

theorem forward_loop_ends_witness:
  "\<exists>e s'. forward_loop [silent\<lparr>rd_ready2 := True\<rparr>] \<lparr>in1 = [], out1 = [], in2 = [], out2 = []\<rparr> = (Some e, s')"
  by (rule forward_loop_ends) (simp_all add: run_simps)

text \<open>
  A \<open>write\<close> that takes less than it is given loses the rest: the loop goes on,
  and the bytes are neither written nor kept.
\<close>

lemma short_write_loses:
  assumes "in1 s = chunk @ rest" "rd_poll rd \<ge> 1" "rd_ready1 rd" "\<not> rd_ready2 rd"
    and "rd_read1 rd = int (length chunk)" "rd_write1 rd = int n" "0 < n" "n < length chunk"
  shows "forward_loop [rd] s = (None, s\<lparr>in1 := rest, out2 := out2 s @ take n chunk\<rparr>)"
proof -
  have ne: "chunk \<noteq> []" using assms(8) by auto
  have "splice_12 rd s = (int n, s\<lparr>in1 := rest, out2 := out2 s @ take n chunk\<rparr>)"
    using assms splice_read [OF assms(1) ne, of "int n" "out2 s"] by (simp add: splice_12_def)
  then show ?thesis using assms by (simp add: forward_round_def)
qed

end
