(* ===== verification/Lifeline.thy ===== *)
theory Lifeline
  imports Dns Relay "HOL-Library.Multiset"
begin

text \<open>
  packages/lifeline/lifeline.c and config.h: the client that asks a resolver for its servers,
  connects to each, upgrades the connection and relays it to the local ssh daemon. The answers
  of the system are inputs: one record for each name lookup and one for each connection
  attempt. The state holds the open descriptors, the static request buffer, the numbers of
  lookups and attempts so far and the log of what a peer can see.
\<close>

section \<open>Configuration\<close>

definition LIFELINE_SERVERS :: "cstr list" where
  "LIFELINE_SERVERS = [bytes ''lifeline.hy5.berlin'', bytes ''lifeline.captif.io'',
     bytes ''lifeline.exys.org'', bytes ''lifeline.superscale.io'']"

definition DNS_RESOLVERS :: "cstr list" where
  "DNS_RESOLVERS = [bytes ''8.8.8.8'', bytes ''8.8.4.4'', bytes ''208.67.222.222'',
     bytes ''208.67.220.220'', bytes ''/etc/resolv.conf'']"

section \<open>State\<close>

text \<open>
  \<open>Connecting\<close>: \<open>connect\<close> to an address; \<open>Sent\<close>: bytes given to \<open>send\<close>; \<open>Asked\<close>: a
  datagram to a resolver; \<open>Forwarded\<close>: the two sockets of a relay that is over, with its last
  state.
\<close>

datatype event =
    Connecting int "byte list"
  | Sent int "byte list"
  | Asked cstr "byte list"
  | Forwarded int int relay

record lifeline =
  lf_fds :: "int list"
  lf_helo :: "byte list"
  lf_lookups :: nat
  lf_attempts :: nat
  lf_log :: "event list"

text \<open>
  What the system answers during one connection attempt: the results of the calls, the bytes
  of the server in the pieces \<open>recv\<close> gets them in, the bytes of the local daemon and the
  rounds of the relay. \<open>rc_sigpipe\<close>: the server is gone when the request is sent.
\<close>

record remote_calls =
  rc_socket :: int
  rc_poll :: int
  rc_sigpipe :: bool
  rc_segments :: "byte list list"
  rc_local_socket :: int
  rc_local_pton :: int
  rc_local_connect :: int
  rc_local_in :: "byte list"
  rc_rounds :: "round list"

text \<open>During one name lookup.\<close>

record dns_calls =
  dc_socket :: int
  dc_send :: "byte list \<Rightarrow> int"
  dc_received :: "(byte list \<times> byte list) option"

text \<open>
  The system: \<open>inet_addr\<close>, the name \<open>gethostname\<close> gives when it succeeds, the files, and
  the answers to each lookup and attempt by its number.
\<close>

record system =
  sys_inet_addr :: "cstr \<Rightarrow> byte list"
  sys_hostname :: "cstr option"
  sys_files :: "cstr \<Rightarrow> byte list option"
  sys_dns :: "nat \<Rightarrow> dns_calls"
  sys_remote :: "nat \<Rightarrow> remote_calls"

definition INADDR_NONE :: "byte list" where
  "INADDR_NONE = [0xff, 0xff, 0xff, 0xff]"

definition open_fd :: "int \<Rightarrow> lifeline \<Rightarrow> lifeline" where
  "open_fd fd st = st\<lparr>lf_fds := fd # lf_fds st\<rparr>"

definition close_fd :: "int \<Rightarrow> lifeline \<Rightarrow> lifeline" where
  "close_fd fd st = st\<lparr>lf_fds := remove1 fd (lf_fds st)\<rparr>"

definition log_event :: "event \<Rightarrow> lifeline \<Rightarrow> lifeline" where
  "log_event e st = st\<lparr>lf_log := lf_log st @ [e]\<rparr>"

section \<open>The client's request\<close>

definition eol :: "byte list" where "eol = [13, 10]"

definition helo_text :: "cstr \<Rightarrow> cstr \<Rightarrow> byte list" where
  "helo_text remotename name =
     bytes ''GET /lifeline/1 HTTP/1.1'' @ eol @
     bytes ''Host: '' @ remotename @ eol @
     bytes ''Upgrade: websocket'' @ eol @
     bytes ''Connection: Upgrade'' @ eol @
     bytes ''User-Agent: Mozilla/5.0 (X11; Linux x86_64) AppleWebKit/537.36 (KHTML, like Gecko) Chrome/51.0.2704.63 Safari/537.36'' @ eol @
     bytes ''Sec-WebSocket-Key: x3JJHMbDL1EzLkh9GBhXDw=='' @ eol @
     bytes ''Sec-WebSocket-Protocol: chat, superchat'' @ eol @
     bytes ''Sec-WebSocket-Version: 13'' @ eol @
     bytes ''X-LF-Name: legacy.'' @ name @ eol @ eol"

definition build_helo :: "byte list \<Rightarrow> cstr option \<Rightarrow> cstr \<Rightarrow> byte list c" where
  "build_helo helo hostname remotename =
     (let name = (case hostname of None \<Rightarrow> bytes ''?'' | Some n \<Rightarrow> n)
      in snprintf_at helo 0 2048 (helo_text remotename name))"

section \<open>Connecting\<close>

text \<open>The results of the calls to \<open>connect\<close>, \<open>fcntl\<close> and \<open>setsockopt\<close> change nothing.\<close>

definition remote_connect :: "remote_calls \<Rightarrow> byte list \<Rightarrow> lifeline \<Rightarrow> int \<times> lifeline" where
  "remote_connect rc address st =
     (let sockfd = rc_socket rc
      in if sockfd < 0 then (-1, st)
         else let st1 = log_event (Connecting sockfd address) (open_fd sockfd st)
              in if rc_poll rc \<noteq> 1 then (-3, close_fd sockfd st1) else (sockfd, st1))"

definition local_connect :: "remote_calls \<Rightarrow> lifeline \<Rightarrow> int \<times> lifeline" where
  "local_connect rc st =
     (let sockfd = rc_local_socket rc
      in if sockfd < 0 then (-1, st)
         else let st1 = open_fd sockfd st
              in if rc_local_pton rc \<le> 0 then (-1, st1)
                 else let st2 = log_event (Connecting sockfd [127, 0, 0, 1]) st1
                      in if rc_local_connect rc < 0 then (-1, st2) else (sockfd, st2))"

section \<open>One connection\<close>

text \<open>
  \<open>recv\<close> of at most \<open>n\<close> bytes: from the first piece only; an empty result is an error or
  the end.
\<close>

fun recv :: "nat \<Rightarrow> byte list list \<Rightarrow> byte list \<times> byte list list" where
  "recv n [] = ([], [])"
| "recv n (seg # segs) = (take n seg, if length seg \<le> n then segs else drop n seg # segs)"

definition expect :: "byte list" where
  "expect = bytes ''HTTP/1.1 101 Switching Protocols''"

lemma recv_shrinks: "recv (Suc n) segs = (b # bs, segs') \<Longrightarrow> length (concat segs') < length (concat segs)"
  by (cases segs) (auto split: if_splits)

text \<open>
  The loop over the server's headers, a byte at a time into the first byte of the request
  buffer: up to four line characters in a row. \<open>None\<close>: the socket died.
\<close>

function skip_headers :: "byte list \<Rightarrow> nat \<Rightarrow> byte list list \<Rightarrow> byte list \<times> byte list list option" where
  "skip_headers helo countspace segs =
     (case recv 1 segs of
        ([], segs') \<Rightarrow> (helo, None)
      | (b # bs, segs') \<Rightarrow>
          let helo' = helo[0 := b]
          in if b = 10 \<or> b = 13
             then if countspace + 1 > 3 then (helo', Some segs') else skip_headers helo' (countspace + 1) segs'
             else skip_headers helo' 0 segs')"
  by pat_completeness auto
termination
  by (relation "measure (\<lambda>(helo, countspace, segs). length (concat segs))")
    (auto dest: recv_shrinks [OF sym] simp del: recv.simps)

declare skip_headers.simps [simp del]

text \<open>The result \<open>None\<close> is the end of the function without a \<open>return\<close>; no caller uses it.\<close>

definition attempt_remote :: "system \<Rightarrow> cstr \<Rightarrow> byte list \<Rightarrow> lifeline \<Rightarrow> (int option \<times> lifeline) c" where
  "attempt_remote sys connectName address st =
     (let rc = sys_remote sys (lf_attempts st);
          (remote_socket, st1) = remote_connect rc address (st\<lparr>lf_attempts := lf_attempts st + 1\<rparr>)
      in if remote_socket > 1 then
           cbind (build_helo (lf_helo st1) (sys_hostname sys) connectName) (\<lambda>helo.
           if rc_sigpipe rc then Inl Signal else
           (let st2 = log_event (Sent remote_socket (cstring_at helo 0)) (st1\<lparr>lf_helo := helo\<rparr>);
                (buf, segs) = recv (length expect) (rc_segments rc)
            in if length buf \<noteq> length expect then Inr (Some 1, close_fd remote_socket st2)
               else if buf \<noteq> expect then Inr (Some 2, close_fd remote_socket st2)
               else case skip_headers helo 0 segs of
                   (helo', None) \<Rightarrow> Inr (Some 1, close_fd remote_socket (st2\<lparr>lf_helo := helo'\<rparr>))
                 | (helo', Some segs') \<Rightarrow>
                     (let (local_socket, st3) = local_connect rc (st2\<lparr>lf_helo := helo'\<rparr>)
                      in if local_socket < 1 then Inr (Some local_socket, st3)
                         else case forward_loop (rc_rounds rc)
                               \<lparr>in1 = rc_local_in rc, out1 = [], in2 = concat segs', out2 = []\<rparr> of
                             (None, r) \<Rightarrow> Inl Running
                           | (Some (Exited ret), r) \<Rightarrow> Inl (Exit ret)
                           | (Some Killed, r) \<Rightarrow> Inl Signal
                           | (Some Returned, r) \<Rightarrow>
                               Inr (Some 0, log_event (Forwarded local_socket remote_socket r) st3))))
         else Inr (None, st1))"

section \<open>One resolver\<close>

text \<open>The loop over the records, up to one with a zero ttl; behind the array it is undefined.\<close>

fun attempt_records :: "system \<Rightarrow> cstr \<Rightarrow> dns_record list \<Rightarrow> lifeline \<Rightarrow> lifeline c" where
  "attempt_records sys e [] st = Inl Undefined"
| "attempt_records sys e (r # rs) st =
     (if rr_ttl r = 0 then Inr st
      else cbind (attempt_remote sys e (rr_address r) st) (\<lambda>(_, st'). attempt_records sys e rs st'))"

definition attempt_server :: "system \<Rightarrow> cstr \<Rightarrow> cstr \<Rightarrow> lifeline \<Rightarrow> lifeline c" where
  "attempt_server sys dns_ip e st =
     (let address = sys_inet_addr sys e
      in if address = INADDR_NONE then
           (let dc = sys_dns sys (lf_lookups st);
                st0 = st\<lparr>lf_lookups := lf_lookups st + 1\<rparr>;
                (err, dns) = dns_init (dc_socket dc) (sys_inet_addr sys dns_ip)
            in if err \<noteq> 0 then Inr st0
               else let st1 = open_fd (dns_socket dns) st0 in
                 cbind (dns_request (dc_send dc) dns e) (\<lambda>(err1, dns1, out).
                 (let st2 = (case out of None \<Rightarrow> st1 | Some datagram \<Rightarrow> log_event (Asked dns_ip datagram) st1)
                  in if err1 \<noteq> 0 then Inr (close_fd (dns_socket dns1) st2)
                     else cbind (dns_receive dns1 (dc_received dc)) (\<lambda>(err2, dns2).
                          if err2 \<noteq> 0 then Inr (close_fd (dns_socket dns2) st2)
                          else cbind (attempt_records sys e (dns_records dns2) st2) (\<lambda>st3.
                               Inr (close_fd (dns_socket dns2) st3))))))
         else cbind (attempt_remote sys e address st) (\<lambda>(_, st'). Inr st'))"

fun attempt_servers :: "system \<Rightarrow> cstr \<Rightarrow> cstr list \<Rightarrow> lifeline \<Rightarrow> lifeline c" where
  "attempt_servers sys dns_ip [] st = Inr st"
| "attempt_servers sys dns_ip (e # es) st =
     cbind (attempt_server sys dns_ip e st) (attempt_servers sys dns_ip es)"

definition attempt_dns :: "system \<Rightarrow> cstr \<Rightarrow> lifeline \<Rightarrow> lifeline c" where
  "attempt_dns sys dns_ip st = attempt_servers sys dns_ip LIFELINE_SERVERS st"

section \<open>The resolvers\<close>

text \<open>\<open>fgets\<close> into a buffer of \<open>n\<close> bytes: up to and with a newline, at most \<open>n - 1\<close> bytes.\<close>

definition fgets :: "nat \<Rightarrow> byte list \<Rightarrow> (byte list \<times> byte list) option" where
  "fgets n fp =
     (if fp = [] then None
      else let k = min (n - 1) (length (takeWhile (\<lambda>b. b \<noteq> 10) fp) + 1) in Some (take k fp, drop k fp))"

lemma fgets_shrinks: "fgets 1024 fp = Some (line, fp') \<Longrightarrow> length fp' < length fp"
  by (auto simp: fgets_def Let_def split: if_splits)

text \<open>
  \<open>sscanf(line, "nameserver %s", buf)\<close>: the word it stores when it returns one. The C standard
  gives no meaning to a word that is stored over the string it is scanned from
  (\<open>overlap\<close>: \<open>buf\<close> and \<open>line\<close> are one object).
\<close>

definition scan_nameserver :: "bool \<Rightarrow> cstr \<Rightarrow> cstr option c" where
  "scan_nameserver overlap line =
     (if take 10 line = bytes ''nameserver''
      then let word = takeWhile (\<lambda>b. \<not> is_space b) (dropWhile is_space (drop 10 line))
           in if word = [] then Inr None else cbind (defined_if (\<not> overlap)) (\<lambda>_. Inr (Some word))
      else Inr None)"

text \<open>The loop has one buffer: \<open>fgets\<close> returns it as the line, \<open>sscanf\<close> stores into it.\<close>

function resolvconf_loop :: "system \<Rightarrow> byte list \<Rightarrow> lifeline \<Rightarrow> lifeline c" where
  "resolvconf_loop sys fp st =
     (case fgets 1024 fp of
        None \<Rightarrow> Inr st
      | Some (buf, fp') \<Rightarrow>
          cbind (scan_nameserver True (cstring_at buf 0)) (\<lambda>found.
          case found of
             None \<Rightarrow> resolvconf_loop sys fp' st
           | Some server \<Rightarrow> cbind (attempt_dns sys server st) (resolvconf_loop sys fp')))"
  by pat_completeness auto
termination
  by (relation "measure (\<lambda>(sys, fp, st). length fp)") (auto dest: fgets_shrinks)

declare resolvconf_loop.simps [simp del]

definition parse_resolvconf :: "system \<Rightarrow> cstr \<Rightarrow> lifeline \<Rightarrow> lifeline c" where
  "parse_resolvconf sys filename st =
     (case sys_files sys filename of None \<Rightarrow> Inr st | Some fp \<Rightarrow> resolvconf_loop sys fp st)"

fun try_resolvers :: "system \<Rightarrow> cstr list \<Rightarrow> lifeline \<Rightarrow> lifeline c" where
  "try_resolvers sys [] st = Inr st"
| "try_resolvers sys (re # res) st =
     cbind (if take 1 re = [47] then parse_resolvconf sys re st else attempt_dns sys re st) (try_resolvers sys res)"

definition lifeline_start :: lifeline where
  "lifeline_start = \<lparr>lf_fds = [2, 1, 0], lf_helo = replicate 2048 0, lf_lookups = 0, lf_attempts = 0, lf_log = []\<rparr>"

definition lifeline_main :: "system \<Rightarrow> lifeline c" where
  "lifeline_main sys = try_resolvers sys DNS_RESOLVERS lifeline_start"

section \<open>The request\<close>

lemma helo_text_length: "length (helo_text remotename name) = 328 + length remotename + length name"
  by (simp add: helo_text_def eol_def)

section \<open>The end of the server's headers\<close>

definition is_line :: "byte \<Rightarrow> bool" where
  "is_line b \<longleftrightarrow> b = 10 \<or> b = 13"

text \<open>What is behind the first four line characters in a row, when \<open>k\<close> of them came just before.\<close>

fun after_headers :: "nat \<Rightarrow> byte list \<Rightarrow> byte list option" where
  "after_headers k [] = None"
| "after_headers k (b # bs) =
     (if is_line b then if k \<ge> 3 then Some bs else after_headers (k + 1) bs
      else after_headers 0 bs)"

lemma recv_1:
  "[] \<notin> set segs \<Longrightarrow>
     (case concat segs of
        [] \<Rightarrow> fst (recv 1 segs) = []
      | b # bs \<Rightarrow> \<exists>segs'. recv 1 segs = ([b], segs') \<and> concat segs' = bs \<and> [] \<notin> set segs')"
proof (cases segs)
  case (Cons seg rest)
  assume "[] \<notin> set segs"
  then show ?thesis using Cons by (cases seg) (auto simp: neq_Nil_conv)
qed simp

lemma skip_headers_flat:
  "[] \<notin> set segs \<Longrightarrow> map_option concat (snd (skip_headers helo k segs)) = after_headers k (concat segs)"
proof (induction "concat segs" arbitrary: helo k segs)
  case Nil
  have "concat segs = []" using Nil(1) by simp
  then have "fst (recv 1 segs) = []" using recv_1 [OF Nil(2)] by (simp only: list.case)
  then show ?case unfolding Nil(1) [symmetric] by (subst skip_headers.simps) (cases "recv 1 segs", simp)
next
  case (Cons b bs)
  have "\<exists>segs'. recv 1 segs = ([b], segs') \<and> concat segs' = bs \<and> [] \<notin> set segs'"
    using recv_1 [of segs] Cons(3) Cons(2) [symmetric] by simp
  then obtain segs' where r: "recv 1 segs = ([b], segs')" "concat segs' = bs" "[] \<notin> set segs'"
    by blast
  then have IH: "map_option concat (snd (skip_headers h j segs')) = after_headers j bs" for h j
    using Cons(1) [of segs' h j] by simp
  show ?case
    unfolding Cons(2) [symmetric] using r IH
    by (subst skip_headers.simps) (simp add: is_line_def Let_def)
qed

text \<open>A header block: it ends with four line characters in a row, and no shorter part of it does.\<close>

definition ends_block :: "byte list \<Rightarrow> bool" where
  "ends_block h \<longleftrightarrow> 4 \<le> length h \<and> (\<forall>b \<in> set (drop (length h - 4) h). is_line b)"

definition header_block :: "byte list \<Rightarrow> bool" where
  "header_block h \<longleftrightarrow> ends_block h \<and> (\<forall>i < length h. \<not> ends_block (take i h))"

text \<open>The number of line characters a text ends with.\<close>

definition run_length :: "byte list \<Rightarrow> nat" where
  "run_length h = length (takeWhile is_line (List.rev h))"

lemma run_length_snoc: "run_length (h @ [b]) = (if is_line b then run_length h + 1 else 0)"
  by (simp add: run_length_def)

lemma ends_block_run: "ends_block h \<longleftrightarrow> 4 \<le> run_length h"
proof
  assume e: "ends_block h"
  then have four: "length (take 4 (List.rev h)) = 4" by (simp add: ends_block_def)
  have "\<forall>b \<in> set (take 4 (List.rev h)). is_line b"
    using e by (simp add: ends_block_def take_rev)
  then have "takeWhile is_line (take 4 (List.rev h) @ drop 4 (List.rev h)) =
      take 4 (List.rev h) @ takeWhile is_line (drop 4 (List.rev h))"
    by (intro takeWhile_append2) auto
  then have "run_length h = length (take 4 (List.rev h) @ takeWhile is_line (drop 4 (List.rev h)))"
    unfolding run_length_def by simp
  then show "4 \<le> run_length h" using four by simp
next
  assume r: "4 \<le> run_length h"
  then have len: "4 \<le> length h"
    using length_takeWhile_le [of is_line "List.rev h"] by (simp add: run_length_def)
  have "take 4 (List.rev h) = take 4 (takeWhile is_line (List.rev h))"
    using r by (metis run_length_def takeWhile_eq_take take_take min.absorb1)
  then have "\<forall>b \<in> set (take 4 (List.rev h)). is_line b"
    by (metis in_set_takeD set_takeWhileD)
  then show "ends_block h" using len by (simp add: ends_block_def take_rev)
qed

lemma after_headers_eq:
  assumes "\<forall>i \<le> length pre. \<not> ends_block (take i pre)"
  shows "after_headers (run_length pre) bs = Some rest \<longleftrightarrow>
     (\<exists>h. bs = h @ rest \<and> header_block (pre @ h))"
  using assms
proof (induction bs arbitrary: pre)
  case Nil
  then show ?case by (auto simp: header_block_def)
next
  case (Cons b bs)
  have no: "\<not> header_block pre" using Cons.prems by (auto simp: header_block_def)
  have upto: "\<forall>i < length (pre @ [b]). \<not> ends_block (take i (pre @ [b]))"
    using Cons.prems by (auto simp: less_Suc_eq_le)
  show ?case
  proof (cases "ends_block (pre @ [b])")
    case True
    then have "header_block (pre @ [b])" using upto by (simp add: header_block_def)
    moreover have "h' = []" if "header_block ((pre @ [b]) @ h')" for h'
    proof (rule ccontr)
      assume "h' \<noteq> []"
      then have "length (pre @ [b]) < length ((pre @ [b]) @ h')" by simp
      then have "\<not> ends_block (take (length (pre @ [b])) ((pre @ [b]) @ h'))"
        using that unfolding header_block_def by blast
      then show False using True by simp
    qed
    moreover have "is_line b" "run_length pre \<ge> 3"
      using True by (auto simp: ends_block_run run_length_snoc split: if_splits)
    ultimately show ?thesis using no by (auto simp: Cons_eq_append_conv)
  next
    case False
    then have "\<forall>i \<le> length (pre @ [b]). \<not> ends_block (take i (pre @ [b]))"
      using upto by (auto simp: le_less)
    from Cons.IH [OF this]
    have "after_headers (run_length (pre @ [b])) bs = Some rest \<longleftrightarrow>
        (\<exists>h. bs = h @ rest \<and> header_block (pre @ [b] @ h))" by simp
    moreover have "after_headers (run_length pre) (b # bs) = after_headers (run_length (pre @ [b])) bs"
      using False by (auto simp: ends_block_run run_length_snoc)
    ultimately show ?thesis using no by (auto simp: Cons_eq_append_conv)
  qed
qed

lemma skip_headers_eq:
  assumes "[] \<notin> set segs"
  shows "(\<exists>segs'. snd (skip_headers helo 0 segs) = Some segs' \<and> concat segs' = rest) \<longleftrightarrow>
     (\<exists>h. concat segs = h @ rest \<and> header_block h)"
proof -
  have "(\<exists>segs'. snd (skip_headers helo 0 segs) = Some segs' \<and> concat segs' = rest) \<longleftrightarrow>
      map_option concat (snd (skip_headers helo 0 segs)) = Some rest" by auto
  also have "\<dots> \<longleftrightarrow> after_headers (run_length []) (concat segs) = Some rest"
    using skip_headers_flat [OF assms] by (simp add: run_length_def)
  also have "\<dots> \<longleftrightarrow> (\<exists>h. concat segs = h @ rest \<and> header_block h)"
    using after_headers_eq [of "[]" "concat segs" rest] by (simp add: ends_block_def)
  finally show ?thesis .
qed

lemma recv_takes: "recv n segs = (buf, segs') \<Longrightarrow> concat segs = buf @ concat segs'"
  by (cases segs) (auto split: if_splits)

lemma skip_headers_sound:
  "skip_headers helo k segs = (helo', Some segs') \<Longrightarrow> after_headers k (concat segs) = Some (concat segs')"
proof (induction helo k segs rule: skip_headers.induct)
  case (1 helo k segs)
  obtain bs s1 where r: "recv 1 segs = (bs, s1)" by fastforce
  show ?case
  proof (cases bs)
    case Nil
    then show ?thesis using 1(3) r by (subst (asm) skip_headers.simps) simp
  next
    case (Cons b cs)
    have "length bs \<le> 1" using r by (cases segs) (auto split: if_splits)
    then have b: "recv 1 segs = ([b], s1)" using r Cons by simp
    have flat: "concat segs = b # concat s1" using recv_takes [OF b] by simp
    have s: "skip_headers helo k segs =
      (if is_line b then if k \<ge> 3 then (helo[0 := b], Some s1) else skip_headers (helo[0 := b]) (k + 1) s1
       else skip_headers (helo[0 := b]) 0 s1)"
      unfolding skip_headers.simps [of helo k segs] b by (simp add: is_line_def Let_def)
    show ?thesis
      using 1(1) [OF b [symmetric] refl refl] 1(2) [OF b [symmetric] refl refl] 1(3)
      unfolding s flat by (auto simp: is_line_def split: if_splits)
  qed
qed

lemma skip_headers_block:
  assumes "skip_headers helo 0 segs = (helo', Some segs')"
  shows "\<exists>h. concat segs = h @ concat segs' \<and> header_block h"
  using skip_headers_sound [OF assms] after_headers_eq [of "[]" "concat segs" "concat segs'"]
  by (simp add: ends_block_def run_length_def)

text \<open>The buffer has no influence on where the headers end.\<close>

lemma skip_headers_helo: "snd (skip_headers helo k segs) = snd (skip_headers helo' k segs)"
proof (induction helo k segs arbitrary: helo' rule: skip_headers.induct)
  case (1 helo k segs)
  obtain bs s1 where r: "recv 1 segs = (bs, s1)" by fastforce
  show ?case
  proof (cases bs)
    case Nil
    then show ?thesis unfolding skip_headers.simps [of _ k segs] r by simp
  next
    case (Cons b cs)
    note r' = r [unfolded Cons]
    show ?thesis
      using 1(1) [OF r' [symmetric] refl refl, of "helo'[0 := b]"]
        1(2) [OF r' [symmetric] refl refl, of "helo'[0 := b]"]
      unfolding skip_headers.simps [of _ k segs] r'
      by (cases "b = 10"; cases "b = 13") (simp_all add: Let_def)
  qed
qed

section \<open>Where an attempt gets to\<close>

text \<open>The server agreed: its first piece begins with the expected line, its headers end.\<close>

definition upgraded :: "remote_calls \<Rightarrow> bool" where
  "upgraded rc \<longleftrightarrow> fst (recv (length expect) (rc_segments rc)) = expect \<and>
     snd (skip_headers [] 0 (snd (recv (length expect) (rc_segments rc)))) \<noteq> None"

text \<open>The descriptors an attempt leaves open.\<close>

definition leaked :: "remote_calls \<Rightarrow> int list" where
  "leaked rc =
     (if rc_socket rc < 0 \<or> rc_poll rc \<noteq> 1 then []
      else if rc_socket rc > 1 \<and> \<not> upgraded rc then []
      else if rc_socket rc > 1 \<and> rc_local_socket rc \<ge> 0 then [rc_local_socket rc, rc_socket rc]
      else [rc_socket rc])"

lemma fd_simps [simp]:
  "lf_fds (open_fd fd st) = fd # lf_fds st" "lf_fds (close_fd fd st) = remove1 fd (lf_fds st)"
  "lf_fds (log_event e st) = lf_fds st"
  "lf_log (open_fd fd st) = lf_log st" "lf_log (close_fd fd st) = lf_log st"
  "lf_log (log_event e st) = lf_log st @ [e]"
  "lf_attempts (open_fd fd st) = lf_attempts st" "lf_attempts (close_fd fd st) = lf_attempts st"
  "lf_attempts (log_event e st) = lf_attempts st"
  "lf_helo (open_fd fd st) = lf_helo st" "lf_helo (close_fd fd st) = lf_helo st"
  "lf_helo (log_event e st) = lf_helo st"
  by (simp_all add: open_fd_def close_fd_def log_event_def)

lemma remote_connect_cases:
  assumes "remote_connect rc address st = (sock, st')"
  obtains (failed) "sock < 0" "rc_socket rc < 0 \<or> rc_poll rc \<noteq> 1" "lf_fds st' = lf_fds st"
      "lf_attempts st' = lf_attempts st" "lf_helo st' = lf_helo st"
  | (connected) "sock = rc_socket rc" "0 \<le> sock" "rc_poll rc = 1" "lf_fds st' = sock # lf_fds st"
      "lf_attempts st' = lf_attempts st" "lf_helo st' = lf_helo st" 
  using assms by (auto simp: remote_connect_def Let_def split: if_splits)

lemma local_connect_fds:
  assumes "local_connect rc st = (sock, st')"
  shows "lf_fds st' = (if rc_local_socket rc \<ge> 0 then rc_local_socket rc # lf_fds st else lf_fds st)"
    and "lf_attempts st' = lf_attempts st" and "sock \<ge> 0 \<Longrightarrow> sock = rc_local_socket rc"
  using assms by (auto simp: local_connect_def Let_def split: if_splits)

lemma helo_update [simp]:
  "lf_fds (st\<lparr>lf_helo := h\<rparr>) = lf_fds st" "lf_attempts (st\<lparr>lf_helo := h\<rparr>) = lf_attempts st"
  by simp_all

text \<open>What an attempt does to the descriptors and the counter, wherever it ends.\<close>

lemma attempt_remote_fds:
  assumes a: "attempt_remote sys name address st = Inr (r, st')"
  shows "lf_fds st' = leaked (sys_remote sys (lf_attempts st)) @ lf_fds st \<and> lf_attempts st' = lf_attempts st + 1"
proof -
  let ?rc = "sys_remote sys (lf_attempts st)"
  obtain sock st1 where c: "remote_connect ?rc address (st\<lparr>lf_attempts := lf_attempts st + 1\<rparr>) = (sock, st1)"
    by fastforce
  from c show ?thesis
  proof (cases rule: remote_connect_cases)
    case failed
    then have "st' = st1" using a c by (simp add: attempt_remote_def)
    then show ?thesis using failed by (auto simp: leaked_def)
  next
    case connected
    show ?thesis
    proof (cases "sock > 1")
      case False
      then have "st' = st1" using a c by (simp add: attempt_remote_def)
      then show ?thesis using connected False by (auto simp: leaked_def)
    next
      case True
      obtain helo where b: "build_helo (lf_helo st1) (sys_hostname sys) name = Inr helo" "\<not> rc_sigpipe ?rc"
        using a c True by (auto simp: attempt_remote_def cbind_Inr_iff Let_def split: if_splits)
      obtain buf segs where rv: "recv (length expect) (rc_segments ?rc) = (buf, segs)" by fastforce
      obtain helo' res where sk: "skip_headers helo 0 segs = (helo', res)" by fastforce
      have up: "upgraded ?rc \<longleftrightarrow> buf = expect \<and> res \<noteq> None"
        using rv sk skip_headers_helo [of "[]" 0 segs helo] by (simp add: upgraded_def)
      let ?st2 = "log_event (Sent sock (cstring_at helo 0)) (st1\<lparr>lf_helo := helo\<rparr>)"
      show ?thesis
      proof (cases "upgraded ?rc")
        case False
        have "lf_fds st' = remove1 sock (lf_fds st1) \<and> lf_attempts st' = lf_attempts st1"
          using a c b rv sk True up False
          by (auto simp: attempt_remote_def Let_def split: if_splits option.splits)
        then show ?thesis using connected True False by (auto simp: leaked_def)
      next
        case up1: True
        then obtain segs' where r: "res = Some segs'" "buf = expect" using up by auto
        obtain local_sock st3 where l: "local_connect ?rc (?st2\<lparr>lf_helo := helo'\<rparr>) = (local_sock, st3)"
          by fastforce
        have "lf_fds st' = lf_fds st3 \<and> lf_attempts st' = lf_attempts st3"
          using a c b rv sk True r l
          by (auto simp: attempt_remote_def Let_def split: if_splits option.splits loop_end.splits prod.splits)
        then show ?thesis
          using local_connect_fds [OF l] connected True up1 by (auto simp: leaked_def)
      qed
    qed
  qed
qed

end
