(* ===== verification/LifelineRun.thy ===== *)
theory LifelineRun
  imports Lifeline
begin

text \<open>
  The lifeline client over a whole run: a contract of single calls that carries over to the
  loops over records, servers and resolvers (\<open>call_contract\<close>), its two instances (which
  descriptors stay open, what is relayed), the order in which addresses and resolvers are
  tried, and the properties of the component.
\<close>

section \<open>A contract of every call\<close>

lemma dns_init_socket: "dns_init sock ip = (rc, dns) \<Longrightarrow> rc = 0 \<Longrightarrow> dns_socket dns = sock"
  by (auto simp: dns_init_def Let_def split: if_splits)

lemma dns_request_socket: "dns_request send dns name = Inr (rc, dns', out) \<Longrightarrow> dns_socket dns' = dns_socket dns"
  by (auto simp: dns_request_def Let_def cbind_Inr_iff split: if_splits)

lemma dns_receive_socket: "dns_receive dns received = Inr (rc, dns') \<Longrightarrow> dns_socket dns' = dns_socket dns"
  by (cases received) (auto simp: dns_receive_def Let_def cbind_Inr_iff split: if_splits)

text \<open>
  A relation between the states before and after a call that is reflexive and transitive,
  holds of one attempt, of the bookkeeping of a lookup, and survives a descriptor that is
  opened before and closed after. Then it holds of the whole run.
\<close>

locale call_contract =
  fixes sys :: system and R :: "lifeline \<Rightarrow> lifeline \<Rightarrow> bool"
  assumes same: "R st st"
    and chain: "R st1 st2 \<Longrightarrow> R st2 st3 \<Longrightarrow> R st1 st3"
    and attempt: "attempt_remote sys name address st = Inr (r, st') \<Longrightarrow> R st st'"
    and looked_up: "R st (st\<lparr>lf_lookups := n\<rparr>)"
    and asked: "R st (log_event (Asked ip datagram) st)"
    and bracket: "R (open_fd fd st) st' \<Longrightarrow> R st (close_fd fd st')"
begin

lemma records: "attempt_records sys e rs st = Inr st' \<Longrightarrow> R st st'"
proof (induction rs arbitrary: st)
  case (Cons r rs)
  show ?case
  proof (cases "rr_ttl r = 0")
    case True
    then show ?thesis using Cons.prems same by simp
  next
    case False
    then obtain v st1 where "attempt_remote sys e (rr_address r) st = Inr (v, st1)"
        "attempt_records sys e rs st1 = Inr st'"
      using Cons.prems by (auto simp: cbind_Inr_iff)
    then show ?thesis using Cons.IH attempt chain by blast
  qed
qed simp

lemma server:
  assumes "attempt_server sys dns_ip e st = Inr st'"
  shows "R st st'"
proof (cases "sys_inet_addr sys e = INADDR_NONE")
  case False
  then obtain r where "attempt_remote sys e (sys_inet_addr sys e) st = Inr (r, st')"
    using assms by (auto simp: attempt_server_def Let_def cbind_Inr_iff)
  then show ?thesis by (rule attempt)
next
  case True
  let ?dc = "sys_dns sys (lf_lookups st)" and ?st0 = "st\<lparr>lf_lookups := lf_lookups st + 1\<rparr>"
  obtain err dns where i: "dns_init (dc_socket ?dc) (sys_inet_addr sys dns_ip) = (err, dns)" by fastforce
  show ?thesis
  proof (cases "err = 0")
    case False
    then have "st' = ?st0" using assms True i by (simp add: attempt_server_def)
    then show ?thesis by (simp only: looked_up)
  next
    case ok: True
    let ?s = "dc_socket ?dc" and ?st1 = "open_fd (dc_socket ?dc) ?st0"
    obtain err1 dns1 out where q: "dns_request (dc_send ?dc) dns e = Inr (err1, dns1, out)"
      using assms True i ok by (auto simp: attempt_server_def Let_def cbind_Inr_iff)
    let ?st2 = "case out of None \<Rightarrow> ?st1 | Some datagram \<Rightarrow> log_event (Asked dns_ip datagram) ?st1"
    have st2: "R ?st1 ?st2" using same asked by (cases out) auto
    have s: "dns_socket dns = ?s" "dns_socket dns1 = ?s"
      using dns_init_socket [OF i ok] dns_request_socket [OF q] by simp_all
    obtain st3 where "st' = close_fd ?s st3" "R ?st1 st3"
    proof (cases "err1 = 0")
      case False
      then have "st' = close_fd ?s ?st2" using assms True i ok q s by (auto simp: attempt_server_def Let_def cong: option.case_cong)
      then show thesis using that st2 by blast
    next
      case ok1: True
      then obtain err2 dns2 where v: "dns_receive dns1 (dc_received ?dc) = Inr (err2, dns2)"
        using assms True i ok q s by (auto simp: attempt_server_def Let_def cbind_Inr_iff)
      then have s2: "dns_socket dns2 = ?s" using dns_receive_socket s by metis
      show thesis
      proof (cases "err2 = 0")
        case False
        then have "st' = close_fd ?s ?st2" using assms True i ok q s ok1 v s2 by (auto simp: attempt_server_def Let_def cong: option.case_cong)
        then show thesis using that st2 by blast
      next
        case True
        then obtain st3 where "attempt_records sys e (dns_records dns2) ?st2 = Inr st3" "st' = close_fd ?s st3"
          using assms \<open>sys_inet_addr sys e = INADDR_NONE\<close> i ok q s ok1 v s2
          by (auto simp: attempt_server_def Let_def cbind_Inr_iff cong: option.case_cong)
        then show thesis using that st2 records chain by blast
      qed
    qed
    then show ?thesis using bracket looked_up chain by blast
  qed
qed

lemma servers: "attempt_servers sys dns_ip es st = Inr st' \<Longrightarrow> R st st'"
proof (induction es arbitrary: st)
  case (Cons e es)
  then obtain st1 where "attempt_server sys dns_ip e st = Inr st1" "attempt_servers sys dns_ip es st1 = Inr st'"
    by (auto simp: cbind_Inr_iff)
  then show ?case using Cons.IH server chain by blast
qed (simp add: same)

lemma one_resolver: "attempt_dns sys dns_ip st = Inr st' \<Longrightarrow> R st st'"
  unfolding attempt_dns_def by (rule servers)

lemma resolvconf: "resolvconf_loop sys fp st = Inr st' \<Longrightarrow> R st st'"
proof (induction fp arbitrary: st rule: length_induct)
  case (1 fp st)
  show ?case
  proof (cases "fgets 1024 fp")
    case None
    then show ?thesis using 1(2) same by (subst (asm) resolvconf_loop.simps) simp
  next
    case (Some l)
    obtain buf fp' where f: "fgets 1024 fp = Some (buf, fp')" using Some by (cases l) auto
    then have IH: "resolvconf_loop sys fp' t = Inr st' \<Longrightarrow> R t st'" for t
      using 1(1) fgets_shrinks by blast
    obtain found where scan: "scan_nameserver True (cstring_at buf 0) = Inr found"
      using 1(2) f by (subst (asm) resolvconf_loop.simps) (auto simp: cbind_Inr_iff)
    show ?thesis
    proof (cases found)
      case None
      then have "resolvconf_loop sys fp' st = Inr st'"
        using 1(2) f scan by (subst (asm) resolvconf_loop.simps) simp
      then show ?thesis by (rule IH)
    next
      case (Some server)
      then obtain st1 where "attempt_dns sys server st = Inr st1" "resolvconf_loop sys fp' st1 = Inr st'"
        using 1(2) f scan by (subst (asm) resolvconf_loop.simps) (auto simp: cbind_Inr_iff)
      then show ?thesis using IH one_resolver chain by blast
    qed
  qed
qed

lemma resolvers: "try_resolvers sys res st = Inr st' \<Longrightarrow> R st st'"
proof (induction res arbitrary: st)
  case (Cons re res)
  then obtain st1 where s: "(if take 1 re = [47] then parse_resolvconf sys re st else attempt_dns sys re st) = Inr st1"
      "try_resolvers sys res st1 = Inr st'" by (auto simp: cbind_Inr_iff)
  have "R st st1"
    using s(1) same by (auto simp: parse_resolvconf_def dest: one_resolver resolvconf split: if_splits option.splits)
  then show ?case using Cons.IH [OF s(2)] chain by blast
qed (simp add: same)

lemma whole_run: "lifeline_main sys = Inr st' \<Longrightarrow> R lifeline_start st'"
  unfolding lifeline_main_def by (rule resolvers)

end

section \<open>Descriptors over the whole run\<close>

definition attempts_between :: "system \<Rightarrow> lifeline \<Rightarrow> lifeline \<Rightarrow> remote_calls list" where
  "attempts_between sys st st' = map (sys_remote sys) [lf_attempts st..<lf_attempts st']"

definition accounts :: "system \<Rightarrow> lifeline \<Rightarrow> lifeline \<Rightarrow> bool" where
  "accounts sys st st' \<longleftrightarrow> lf_attempts st \<le> lf_attempts st' \<and>
     mset (lf_fds st') = mset (concat (map leaked (attempts_between sys st st'))) + mset (lf_fds st)"

lemma attempts_between_append:
  assumes "lf_attempts st1 \<le> lf_attempts st2" "lf_attempts st2 \<le> lf_attempts st3"
  shows "attempts_between sys st1 st3 = attempts_between sys st1 st2 @ attempts_between sys st2 st3"
proof -
  obtain k where "lf_attempts st3 = lf_attempts st2 + k" using assms(2) le_Suc_ex by blast
  with upt_add_eq_append [OF assms(1), of k]
  have "[lf_attempts st1..<lf_attempts st3] = [lf_attempts st1..<lf_attempts st2] @ [lf_attempts st2..<lf_attempts st3]"
    by (simp only:)
  then show ?thesis by (simp only: attempts_between_def map_append)
qed

interpretation accounting: call_contract sys "accounts sys" for sys
proof
  fix st1 st2 st3
  assume h: "accounts sys st1 st2" "accounts sys st2 st3"
  then have "attempts_between sys st1 st3 = attempts_between sys st1 st2 @ attempts_between sys st2 st3"
    by (intro attempts_between_append) (simp_all add: accounts_def)
  then show "accounts sys st1 st3" using h by (simp add: accounts_def)
next
  fix name address st r st'
  assume "attempt_remote sys name address st = Inr (r, st')"
  then show "accounts sys st st'"
    using attempt_remote_fds by (simp add: accounts_def attempts_between_def)
qed (simp_all add: accounts_def attempts_between_def)

section \<open>What is relayed over the whole run\<close>

definition relay_start :: "remote_calls \<Rightarrow> byte list \<Rightarrow> relay" where
  "relay_start rc rest = \<lparr>in1 = rc_local_in rc, out1 = [], in2 = rest, out2 = []\<rparr>"

text \<open>The server sent the expected line and its headers; the relay ran on what followed.\<close>

definition served :: "remote_calls \<Rightarrow> relay \<Rightarrow> bool" where
  "served rc s \<longleftrightarrow>
     (\<exists>hdr rest. concat (rc_segments rc) = expect @ hdr @ rest \<and> header_block hdr \<and>
        forward_loop (rc_rounds rc) (relay_start rc rest) = (Some Returned, s))"

lemma remote_connect_log:
  "remote_connect rc address st = (sock, st') \<Longrightarrow>
     \<exists>es. lf_log st' = lf_log st @ es \<and> (\<forall>l r s. Forwarded l r s \<notin> set es)"
  by (auto simp: remote_connect_def Let_def split: if_splits)

lemma local_connect_log:
  "local_connect rc st = (sock, st') \<Longrightarrow>
     \<exists>es. lf_log st' = lf_log st @ es \<and> (\<forall>l r s. Forwarded l r s \<notin> set es)"
  by (auto simp: local_connect_def Let_def split: if_splits)

lemma helo_log [simp]: "lf_log (st\<lparr>lf_helo := h\<rparr>) = lf_log st"
  by simp

lemma attempt_remote_log:
  assumes a: "attempt_remote sys name address st = Inr (v, st')"
  shows "\<exists>es. lf_log st' = lf_log st @ es \<and>
     (\<forall>l r s. Forwarded l r s \<in> set es \<longrightarrow> served (sys_remote sys (lf_attempts st)) s)"
proof -
  let ?rc = "sys_remote sys (lf_attempts st)"
  obtain sock st1 where c: "remote_connect ?rc address (st\<lparr>lf_attempts := lf_attempts st + 1\<rparr>) = (sock, st1)"
    by fastforce
  obtain es1 where l1: "lf_log st1 = lf_log st @ es1" "\<forall>l r s. Forwarded l r s \<notin> set es1"
    using remote_connect_log [OF c] by auto
  show ?thesis
  proof (cases "sock > 1")
    case False
    then have "st' = st1" using a c by (simp add: attempt_remote_def)
    then show ?thesis using l1 by auto
  next
    case True
    obtain helo where b: "build_helo (lf_helo st1) (sys_hostname sys) name = Inr helo" "\<not> rc_sigpipe ?rc"
      using a c True by (auto simp: attempt_remote_def cbind_Inr_iff Let_def split: if_splits)
    obtain buf segs where rv: "recv (length expect) (rc_segments ?rc) = (buf, segs)" by fastforce
    obtain helo' res where sk: "skip_headers helo 0 segs = (helo', res)" by fastforce
    let ?ev = "Sent sock (cstring_at helo 0)"
    let ?st2 = "log_event ?ev (st1\<lparr>lf_helo := helo\<rparr>)"
    show ?thesis
    proof (cases "buf = expect \<and> res \<noteq> None")
      case False
      have "lf_log st' = lf_log st @ es1 @ [?ev]"
        using a c b rv sk True False l1(1)
        by (auto simp: attempt_remote_def Let_def split: if_splits option.splits)
      then show ?thesis using l1(2) by (intro exI [of _ "es1 @ [?ev]"]) auto
    next
      case up: True
      then obtain segs' where r: "res = Some segs'" "buf = expect" by auto
      obtain hdr where h: "concat segs = hdr @ concat segs'" "header_block hdr"
        using skip_headers_block sk r by blast
      have flat: "concat (rc_segments ?rc) = expect @ hdr @ concat segs'"
        using recv_takes [OF rv] h(1) r(2) by simp
      obtain lsock st3 where l: "local_connect ?rc (?st2\<lparr>lf_helo := helo'\<rparr>) = (lsock, st3)"
        by fastforce
      obtain es3 where l3: "lf_log st3 = lf_log st @ es1 @ [?ev] @ es3" "\<forall>l r s. Forwarded l r s \<notin> set es3"
        using local_connect_log [OF l] l1(1) by auto
      obtain e s where w: "forward_loop (rc_rounds ?rc) (relay_start ?rc (concat segs')) = (e, s)" by fastforce
      have "st' = st3 \<or> (e = Some Returned \<and> st' = log_event (Forwarded lsock sock s) st3)"
        using a c b rv sk True r l w
        by (auto simp: attempt_remote_def Let_def relay_start_def split: if_splits option.splits loop_end.splits)
      moreover have "e = Some Returned \<Longrightarrow> served ?rc s"
        unfolding served_def using flat h(2) w by blast
      ultimately show ?thesis
        using l1(2) l3 by (intro exI [of _ "drop (length (lf_log st)) (lf_log st')"]) auto
    qed
  qed
qed

text \<open>Every relay of a part of the run belongs to an attempt of that part.\<close>

definition relays_served :: "system \<Rightarrow> lifeline \<Rightarrow> lifeline \<Rightarrow> bool" where
  "relays_served sys st st' \<longleftrightarrow> lf_attempts st \<le> lf_attempts st' \<and>
     (\<exists>es. lf_log st' = lf_log st @ es \<and>
        (\<forall>l r s. Forwarded l r s \<in> set es \<longrightarrow> (\<exists>rc \<in> set (attempts_between sys st st'). served rc s)))"

interpretation relaying: call_contract sys "relays_served sys" for sys
proof
  fix st1 st2 st3
  assume h: "relays_served sys st1 st2" "relays_served sys st2 st3"
  then have a: "attempts_between sys st1 st3 = attempts_between sys st1 st2 @ attempts_between sys st2 st3"
    by (intro attempts_between_append) (simp_all add: relays_served_def)
  from h show "relays_served sys st1 st3"
    unfolding relays_served_def a by (fastforce intro: exI [of _ "drop (length (lf_log st1)) (lf_log st3)"])
next
  fix name address st r st'
  assume "attempt_remote sys name address st = Inr (r, st')"
  from attempt_remote_log [OF this] attempt_remote_fds [OF this] show "relays_served sys st st'"
    by (auto simp: relays_served_def attempts_between_def)
qed (auto simp: relays_served_def attempts_between_def)

section \<open>The addresses of a reply, in order\<close>

fun attempt_all :: "system \<Rightarrow> cstr \<Rightarrow> byte list list \<Rightarrow> lifeline \<Rightarrow> lifeline c" where
  "attempt_all sys e [] st = Inr st"
| "attempt_all sys e (a # as) st =
     cbind (attempt_remote sys e a st) (\<lambda>(_, st'). attempt_all sys e as st')"

text \<open>The records the walk gets to: those before the first with a zero ttl.\<close>

definition live_records :: "dns_record list \<Rightarrow> dns_record list" where
  "live_records = takeWhile (\<lambda>r. rr_ttl r \<noteq> 0)"

lemma live_records_padded: "live_records (rs @ replicate k empty_record) = live_records rs"
proof (induction rs)
  case Nil
  then show ?case by (cases k) (simp_all add: live_records_def empty_record_def)
qed (simp add: live_records_def)

lemma attempt_records_eq:
  "attempt_records sys e rs st =
     cbind (attempt_all sys e (map rr_address (live_records rs)) st) (\<lambda>st'.
       if length (live_records rs) < length rs then Inr st' else Inl Undefined)"
proof (induction rs arbitrary: st)
  case (Cons r rs)
  have "attempt_records sys e rs = (\<lambda>st. cbind (attempt_all sys e (map rr_address (live_records rs)) st) (\<lambda>st'.
       if length (live_records rs) < length rs then Inr st' else Inl Undefined))" using Cons by auto
  then show ?case by (simp add: live_records_def case_prod_unfold)
qed (simp add: live_records_def)

definition lookup_ready :: "system \<Rightarrow> cstr \<Rightarrow> lifeline \<Rightarrow> bool" where
  "lookup_ready sys e st \<longleftrightarrow>
     (let dc = sys_dns sys (lf_lookups st); q = request_header @ request_payload e
      in sys_inet_addr sys e = INADDR_NONE \<and> length e \<le> 492 \<and> 0 \<le> dc_socket dc \<and> int (length q) \<le> dc_send dc q)"

lemma attempt_server_reply:
  assumes ready: "lookup_ready sys e st"
    and recvd: "dc_received (sys_dns sys (lf_lookups st)) = Some (d, sys_inet_addr sys dns_ip)"
    and d: "d = reply_bytes flags q as ns ar rest" "length d \<le> 524" "0 \<notin> set q" "\<forall>a \<in> set as. answer_ok a" "as \<noteq> []"
    and few: "length (addresses as) \<le> 8"
  shows "attempt_server sys dns_ip e st =
     (let sock = dc_socket (sys_dns sys (lf_lookups st));
          st1 = log_event (Asked dns_ip (request_header @ request_payload e))
                  (open_fd sock (st\<lparr>lf_lookups := lf_lookups st + 1\<rparr>))
      in cbind (attempt_all sys e (map rr_address (live_records (addresses as))) st1) (\<lambda>st2.
           if length (live_records (addresses as)) < 8 then Inr (close_fd sock st2) else Inl Undefined))"
proof -
  let ?dc = "sys_dns sys (lf_lookups st)" and ?ip = "sys_inet_addr sys dns_ip" and ?n = "length (addresses as)"
  define sock where "sock = dc_socket ?dc"
  define q0 where "q0 = request_header @ request_payload e"
  have r: "sys_inet_addr sys e = INADDR_NONE" "length e \<le> 492" "0 \<le> sock" "\<not> dc_send ?dc q0 < int (length q0)"
    using ready by (simp_all add: lookup_ready_def Let_def sock_def q0_def)
  obtain dns where i: "dns_init sock ?ip = (0, dns)" "dns_socket dns = sock" "dns_address dns = ?ip"
      "dns_records dns = replicate 8 empty_record"
    using r(3) by (simp add: dns_init_def)
  obtain dns1 where q1: "dns_request (dc_send ?dc) dns e = Inr (0, dns1, Some q0)" "dns_id dns1 = 0x1337"
      "dns_socket dns1 = sock" "dns_address dns1 = ?ip" "dns_records dns1 = replicate 8 empty_record"
    using dns_request_eq [OF r(2), of "dc_send ?dc" dns] r(4) i by (simp add: Let_def q0_def)
  obtain dns2 where v: "dns_receive dns1 (Some (d, ?ip)) = Inr (0, dns2)" "dns_socket dns2 = sock"
      "dns_records dns2 = addresses as @ drop ?n (replicate 8 empty_record)"
    using dns_receive_reply [OF d q1(2), of ?ip] q1(3-5) few by simp
  have live: "live_records (dns_records dns2) = live_records (addresses as)" "length (dns_records dns2) = 8"
    using few unfolding v(3) by (simp_all add: live_records_padded)
  have rec: "attempt_records sys e (dns_records dns2) t =
      cbind (attempt_all sys e (map rr_address (live_records (addresses as))) t) (\<lambda>u.
        if length (live_records (addresses as)) < 8 then Inr u else Inl Undefined)" for t
    unfolding attempt_records_eq live by (rule refl)
  have "attempt_server sys dns_ip e st =
      cbind (attempt_records sys e (dns_records dns2) (log_event (Asked dns_ip q0)
        (open_fd sock (st\<lparr>lf_lookups := lf_lookups st + 1\<rparr>)))) (\<lambda>st3. Inr (close_fd sock st3))"
    using r(1) i q1(1,3) v(1,2) recvd by (simp add: attempt_server_def Let_def sock_def)
  then show ?thesis
    unfolding rec by (simp add: Let_def sock_def [symmetric] q0_def [symmetric] if_distrib [of "\<lambda>m. cbind m f" for f] cong: if_cong)
qed

section \<open>resolv.conf\<close>

text \<open>A line that names a resolver, or another one.\<close>

datatype conf_line = Nameserver cstr | Other cstr

fun conf_text :: "conf_line \<Rightarrow> byte list" where
  "conf_text (Nameserver s) = bytes ''nameserver '' @ s @ [10]"
| "conf_text (Other t) = t @ [10]"

fun conf_ok :: "conf_line \<Rightarrow> bool" where
  "conf_ok (Nameserver s) \<longleftrightarrow> s \<noteq> [] \<and> length s \<le> 1000 \<and> (\<forall>b \<in> set s. b \<noteq> 0 \<and> \<not> is_space b)"
| "conf_ok (Other t) \<longleftrightarrow> length t \<le> 1000 \<and> 0 \<notin> set t \<and> 10 \<notin> set t \<and> take 10 t \<noteq> bytes ''nameserver''"

fun nameservers :: "conf_line list \<Rightarrow> cstr list" where
  "nameservers [] = []"
| "nameservers (Nameserver s # ls) = s # nameservers ls"
| "nameservers (Other t # ls) = nameservers ls"

fun attempt_resolvers :: "system \<Rightarrow> cstr list \<Rightarrow> lifeline \<Rightarrow> lifeline c" where
  "attempt_resolvers sys [] st = Inr st"
| "attempt_resolvers sys (ip # ips) st = cbind (attempt_dns sys ip st) (attempt_resolvers sys ips)"

lemma fgets_line:
  "10 \<notin> set t \<Longrightarrow> length t \<le> 1022 \<Longrightarrow> fgets 1024 (t @ 10 # rest) = Some (t @ [10], rest)"
proof -
  assume t: "10 \<notin> set t" "length t \<le> 1022"
  then have "takeWhile (\<lambda>b. b \<noteq> 10) (t @ 10 # rest) = t" by (subst takeWhile_append2) auto
  then show ?thesis using t by (simp add: fgets_def)
qed

lemma cstring_at_0: "0 \<notin> set t \<Longrightarrow> cstring_at t 0 = t"
  by (simp add: cstring_at_def takeWhile_eq_all_conv) metis

lemma scan_nameserver_line:
  assumes "s \<noteq> []" "\<forall>b \<in> set s. \<not> is_space b"
  shows "scan_nameserver overlap (bytes ''nameserver'' @ 32 # s @ [10]) = (if overlap then Inl Undefined else Inr (Some s))"
proof -
  have "dropWhile is_space (32 # s @ [10]) = s @ [10]"
  proof (cases s)
    case (Cons b bs)
    then have "\<not> is_space b" "is_space 32" using assms(2) by (simp_all, simp add: is_space_def)
    then show ?thesis using Cons by simp
  qed (use assms in simp)
  moreover have "takeWhile (\<lambda>b. \<not> is_space b) (s @ [10]) = s"
    using assms(2) by (subst takeWhile_append2) (auto simp: is_space_def)
  ultimately show ?thesis using assms(1) by (simp add: scan_nameserver_def)
qed

lemma conf_line_read:
  assumes "conf_ok l"
  shows "fgets 1024 (conf_text l @ rest) = Some (conf_text l, rest) \<and>
    scan_nameserver True (cstring_at (conf_text l) 0) = (case l of Nameserver s \<Rightarrow> Inl Undefined | Other _ \<Rightarrow> Inr None)"
proof (cases l)
  case (Nameserver s)
  let ?t = "bytes ''nameserver '' @ s"
  have s: "s \<noteq> []" "length s \<le> 1000" "0 \<notin> set s" "\<forall>b \<in> set s. \<not> is_space b" "10 \<notin> set s"
    using assms Nameserver by (auto simp: is_space_def)
  have "0 \<notin> set (bytes ''nameserver '')" "10 \<notin> set (bytes ''nameserver '')" by (simp_all add: bytes_def)
  then have t: "10 \<notin> set ?t" "length ?t \<le> 1022" "0 \<notin> set (?t @ [10])" using s by simp_all
  have "bytes ''nameserver '' = bytes ''nameserver'' @ [32]" by (simp add: bytes_def)
  then have "scan_nameserver True (?t @ [10]) = Inl Undefined"
    using scan_nameserver_line [OF s(1,4), of True] by simp
  then show ?thesis using fgets_line [OF t(1,2), of rest] cstring_at_0 [OF t(3)] Nameserver by simp
next
  case (Other t)
  then have t: "length t \<le> 1022" "0 \<notin> set (t @ [10])" "10 \<notin> set t" "take 10 t \<noteq> bytes ''nameserver''"
    using assms by simp_all
  have "take 10 (t @ [10]) \<noteq> bytes ''nameserver''"
  proof (cases "length t < 10")
    case True
    have "10 \<notin> set (bytes ''nameserver'')" by (simp add: bytes_def)
    then show ?thesis using True by (metis append_is_Nil_conv in_set_conv_decomp length_append_singleton less_eq_Suc_le take_all_iff)
  next
    case False
    then show ?thesis using t(4) by simp
  qed
  then have "scan_nameserver True (t @ [10]) = Inr None" by (simp add: scan_nameserver_def)
  then show ?thesis using fgets_line [OF t(3,1), of rest] cstring_at_0 [OF t(2)] Other by simp
qed

lemma resolvconf_loop_lines:
  "\<forall>l \<in> set ls. conf_ok l \<Longrightarrow>
     resolvconf_loop sys (concat (map conf_text ls)) st = (if nameservers ls = [] then Inr st else Inl Undefined)"
proof (induction ls arbitrary: st)
  case Nil
  then show ?case by (subst resolvconf_loop.simps) (simp add: fgets_def)
next
  case (Cons l ls)
  then have ok: "conf_ok l" by simp
  show ?case
    by (subst resolvconf_loop.simps)
      (use conf_line_read [OF ok, of "concat (map conf_text ls)"] Cons in \<open>simp split: conf_line.splits\<close>)
qed

lemma try_resolvers_plain:
  "\<forall>re \<in> set res. take 1 re \<noteq> [47] \<Longrightarrow> try_resolvers sys (res @ res') st =
     cbind (attempt_resolvers sys res st) (try_resolvers sys res')"
proof (induction res arbitrary: st)
  case (Cons re res)
  then have "try_resolvers sys (res @ res') = (\<lambda>st. cbind (attempt_resolvers sys res st) (try_resolvers sys res'))" by auto
  then show ?case using Cons.prems by simp
qed simp

lemma build_helo_whole:
  assumes "length helo = 2048" "length remotename + length name \<le> 1719"
  shows "build_helo helo (Some name) remotename = Inr (overwrite helo 0 (helo_text remotename name @ [0]))"
  using assms by (simp add: build_helo_def snprintf_at_fits helo_text_length)

lemma helo_text_cstr: "0 \<notin> set remotename \<Longrightarrow> 0 \<notin> set name \<Longrightarrow> 0 \<notin> set (helo_text remotename name)"
  unfolding helo_text_def eol_def set_append by (simp add: bytes_def)

lemma header_block_unique:
  assumes "h @ r = h' @ r'" "header_block h" "header_block h'"
  shows "h = h' \<and> r = r'"
proof -
  have shorter: False if "length a < length b" "a @ x = b @ y" "header_block a" "header_block b" for a b x y :: "byte list"
  proof -
    have "a = take (length a) b" using that(1,2) by (metis append_eq_conv_conj less_imp_le take_append diff_is_0_eq take_0 append_Nil2)
    then show False using that(1,3,4) by (metis header_block_def)
  qed
  then have "length h = length h'" using assms by (metis linorder_neqE_nat)
  then show ?thesis using assms(1) by simp
qed

lemma configured_server:
  "e \<in> set LIFELINE_SERVERS \<Longrightarrow> length e \<le> 24 \<and> 0 \<notin> set e"
  by (auto simp: LIFELINE_SERVERS_def bytes_def)

lemma recv_nonempty: "recv n segs = (buf, segs') \<Longrightarrow> [] \<notin> set segs \<Longrightarrow> [] \<notin> set segs'"
  by (cases segs) (auto split: if_splits)

text \<open>An attempt whose server agrees gets to the relay, with exactly what is behind the headers.\<close>

lemma attempt_upgraded:
  assumes "rc = sys_remote sys (lf_attempts st)"
    and "host = (case sys_hostname sys of None \<Rightarrow> bytes ''?'' | Some n \<Rightarrow> n)" "length host \<le> 199" "0 \<notin> set host"
    and "name \<in> set LIFELINE_SERVERS" "length (lf_helo st) = 2048"
    and "1 < rc_socket rc" "rc_poll rc = 1" "\<not> rc_sigpipe rc"
    and "recv (length expect) (rc_segments rc) = (expect, segs)" "concat segs = hdr @ frames" "[] \<notin> set segs" "header_block hdr"
    and "1 \<le> rc_local_socket rc" "0 < rc_local_pton rc" "0 \<le> rc_local_connect rc"
    and "forward_loop (rc_rounds rc) (relay_start rc frames) = (Some Returned, s)"
  shows "\<exists>st'. attempt_remote sys name address st = Inr (Some 0, st') \<and>
     lf_log st' = lf_log st @ [Connecting (rc_socket rc) address, Sent (rc_socket rc) (helo_text name host),
       Connecting (rc_local_socket rc) [127, 0, 0, 1], Forwarded (rc_local_socket rc) (rc_socket rc) s]"
proof -
  let ?text = "helo_text name host"
  let ?helo = "overwrite (lf_helo st) 0 (?text @ [0])"
  have n: "length name \<le> 24" "0 \<notin> set name" using configured_server [OF assms(5)] by simp_all
  have "build_helo (lf_helo st) (sys_hostname sys) name = build_helo (lf_helo st) (Some host) name"
    using assms(2) by (simp add: build_helo_def split: option.splits)
  also have "\<dots> = Inr ?helo" using n(1) assms(3,6) by (intro build_helo_whole) simp_all
  finally have b: "build_helo (lf_helo st) (sys_hostname sys) name = Inr ?helo" .
  have sent: "cstring_at ?helo 0 = ?text"
    using helo_text_cstr [OF n(2) assms(4)] by (intro cstring_at_terminated) (simp_all add: overwrite_def)
  obtain segs' where "snd (skip_headers ?helo 0 segs) = Some segs'" and flat: "concat segs' = frames"
    using skip_headers_eq [OF assms(12), of ?helo frames] assms(11,13) by auto
  then obtain helo' where sk: "skip_headers ?helo 0 segs = (helo', Some segs')"
    by (cases "skip_headers ?helo 0 segs") simp
  have loop: "forward_loop (rc_rounds rc) \<lparr>in1 = rc_local_in rc, out1 = [], in2 = concat segs', out2 = []\<rparr> = (Some Returned, s)"
    using assms(17) flat by (simp add: relay_start_def)
  have sock: "\<not> rc_socket rc < 0" "\<not> rc_local_socket rc < 0" "\<not> rc_local_socket rc < 1"
      "\<not> rc_local_pton rc \<le> 0" "\<not> rc_local_connect rc < 0"
    using assms(7,14-16) by simp_all
  show ?thesis
    using b sent sk loop sock assms(7-10)
    by (simp add: attempt_remote_def remote_connect_def local_connect_def Let_def assms(1) [symmetric])
qed

section \<open>A system with one server that agrees\<close>

definition drain :: "round list" where
  "drain = [silent\<lparr>rd_ready1 := True, rd_ready2 := True, rd_read1 := 1, rd_write1 := 1, rd_read2 := 2, rd_write2 := 2\<rparr>,
     silent\<lparr>rd_ready2 := True\<rparr>, silent, silent]"

definition agreeing :: remote_calls where
  "agreeing = \<lparr>rc_socket = 3, rc_poll = 1, rc_sigpipe = False, rc_segments = [expect, [13, 10], [13, 10, 1], [2]],
     rc_local_socket = 4, rc_local_pton = 1, rc_local_connect = 0, rc_local_in = [9], rc_rounds = drain\<rparr>"

definition sample_system :: system where
  "sample_system = \<lparr>sys_inet_addr = (\<lambda>s. [10, 0, 0, 1]), sys_hostname = Some (bytes ''ap''), sys_files = (\<lambda>f. None),
     sys_dns = (\<lambda>i. \<lparr>dc_socket = -1, dc_send = (\<lambda>q. -1), dc_received = None\<rparr>),
     sys_remote = (\<lambda>i. if i = 0 then agreeing else agreeing\<lparr>rc_socket := -1\<rparr>)\<rparr>"

definition drained :: relay where
  "drained = \<lparr>in1 = [], out1 = [1, 2], in2 = [], out2 = [9]\<rparr>"

lemma drain_run: "forward_loop drain (relay_start agreeing [1, 2]) = (Some Returned, drained)"
  by (simp add: drain_def drained_def relay_start_def agreeing_def run_simps)

lemma drain_serving: "serving drain (relay_start agreeing [1, 2])"
  by (simp add: drain_def relay_start_def agreeing_def complete_def run_simps)

lemma agreeing_headers: "skip_headers helo 0 [[13, 10], [13, 10, 1], [2]] = (helo[0 := 10], Some [[1], [2]])"
  by (simp add: skip_headers.simps Let_def)

lemma header_block_4: "header_block [13, 10, 13, 10]"
  by (auto simp: header_block_def ends_block_def is_line_def)

lemma first_attempt:
  assumes "lf_attempts st = 0" "length (lf_helo st) = 2048" "e \<in> set LIFELINE_SERVERS"
  shows "\<exists>st'. attempt_remote sample_system e address st = Inr (Some 0, st') \<and> lf_attempts st' = 1 \<and>
     lf_log st' = lf_log st @ [Connecting 3 address, Sent 3 (helo_text e (bytes ''ap'')), Connecting 4 [127, 0, 0, 1],
       Forwarded 4 3 drained]"
proof -
  let ?text = "helo_text e (bytes ''ap'')"
  let ?helo = "overwrite (lf_helo st) 0 (?text @ [0])"
  have e: "length e \<le> 24" "0 \<notin> set e" using configured_server [OF assms(3)] by simp_all
  have b: "build_helo (lf_helo st) (Some (bytes ''ap'')) e = Inr ?helo"
    using e(1) assms(2) by (intro build_helo_whole) simp_all
  have "0 \<notin> set (bytes ''ap'')" by (simp add: bytes_def)
  then have "cstring_at ?helo 0 = ?text"
    using helo_text_cstr [OF e(2)] by (intro cstring_at_terminated) (simp_all add: overwrite_def)
  moreover have "forward_loop drain \<lparr>in1 = [9], out1 = [], in2 = [1, 2], out2 = []\<rparr> = (Some Returned, drained)"
    using drain_run by (simp add: relay_start_def agreeing_def)
  moreover have "sys_remote sample_system 0 = agreeing" "sys_hostname sample_system = Some (bytes ''ap'')"
    by (simp_all add: sample_system_def)
  moreover have "recv (length expect) (rc_segments agreeing) = (expect, [[13, 10], [13, 10, 1], [2]])"
    by (simp add: agreeing_def)
  ultimately show ?thesis
    using assms(1) b agreeing_headers
    by (simp add: attempt_remote_def remote_connect_def local_connect_def Let_def)
      (simp add: agreeing_def)
qed

lemma no_attempt:
  "0 < lf_attempts st \<Longrightarrow> attempt_remote sample_system e address st = Inr (None, st\<lparr>lf_attempts := lf_attempts st + 1\<rparr>)"
  by (simp add: attempt_remote_def sample_system_def remote_connect_def)

lemma sample_server:
  "attempt_server sample_system ip e st = cbind (attempt_remote sample_system e [10, 0, 0, 1] st) (\<lambda>(_, st'). Inr st')"
proof -
  have "sys_inet_addr sample_system x = [10, 0, 0, 1]" for x by (simp add: sample_system_def)
  then show ?thesis by (simp add: attempt_server_def INADDR_NONE_def Let_def)
qed

lemma no_servers:
  "0 < lf_attempts st \<Longrightarrow> \<exists>st'. attempt_servers sample_system ip es st = Inr st' \<and> 0 < lf_attempts st' \<and> lf_log st' = lf_log st"
proof (induction es arbitrary: st)
  case (Cons e es)
  then show ?case using Cons.IH [of "st\<lparr>lf_attempts := lf_attempts st + 1\<rparr>"] by (simp add: sample_server no_attempt)
qed simp

lemma no_resolvers:
  "0 < lf_attempts st \<Longrightarrow> \<exists>st'. try_resolvers sample_system res st = Inr st' \<and> lf_log st' = lf_log st"
proof (induction res arbitrary: st)
  case (Cons re res)
  have "\<exists>st1. (if take 1 re = [47] then parse_resolvconf sample_system re st else attempt_dns sample_system re st) = Inr st1 \<and>
      0 < lf_attempts st1 \<and> lf_log st1 = lf_log st"
    using no_servers [OF Cons.prems] Cons.prems
    by (simp add: attempt_dns_def parse_resolvconf_def) (simp add: sample_system_def)
  then obtain st1 where st1: "(if take 1 re = [47] then parse_resolvconf sample_system re st
      else attempt_dns sample_system re st) = Inr st1" "0 < lf_attempts st1" "lf_log st1 = lf_log st" by blast
  then show ?case using Cons.IH [OF st1(2)] by simp
qed simp

lemma sample_main:
  "\<exists>st'. lifeline_main sample_system = Inr st' \<and>
     lf_log st' = [Connecting 3 [10, 0, 0, 1], Sent 3 (helo_text (bytes ''lifeline.hy5.berlin'') (bytes ''ap'')),
       Connecting 4 [127, 0, 0, 1], Forwarded 4 3 drained]"
proof -
  let ?log = "[Connecting 3 [10, 0, 0, 1], Sent 3 (helo_text (bytes ''lifeline.hy5.berlin'') (bytes ''ap'')),
       Connecting 4 [127, 0, 0, 1], Forwarded 4 3 drained]"
  let ?es = "tl LIFELINE_SERVERS" and ?res = "tl DNS_RESOLVERS"
  have es: "LIFELINE_SERVERS = bytes ''lifeline.hy5.berlin'' # ?es" by (simp add: LIFELINE_SERVERS_def)
  have res: "DNS_RESOLVERS = bytes ''8.8.8.8'' # ?res" by (simp add: DNS_RESOLVERS_def)
  obtain st1 where st1: "attempt_remote sample_system (bytes ''lifeline.hy5.berlin'') [10, 0, 0, 1] lifeline_start = Inr (Some 0, st1)"
      "lf_attempts st1 = 1" "lf_log st1 = ?log"
    using first_attempt [of lifeline_start "bytes ''lifeline.hy5.berlin''" "[10, 0, 0, 1]"]
    by (auto simp: lifeline_start_def LIFELINE_SERVERS_def)
  obtain st2 where st2: "attempt_servers sample_system (bytes ''8.8.8.8'') ?es st1 = Inr st2" "0 < lf_attempts st2" "lf_log st2 = ?log"
    using no_servers [of st1 "bytes ''8.8.8.8''" ?es] st1 by auto
  have "attempt_dns sample_system (bytes ''8.8.8.8'') lifeline_start = Inr st2"
    unfolding attempt_dns_def by (subst es) (simp add: sample_server st1 st2)
  moreover have "take 1 (bytes ''8.8.8.8'') \<noteq> [47]" by (simp add: bytes_def)
  ultimately have "lifeline_main sample_system = try_resolvers sample_system ?res st2"
    unfolding lifeline_main_def by (subst res) simp
  then show ?thesis using no_resolvers [OF st2(2), of ?res] st2(3) by auto
qed

section \<open>Properties\<close>

text \<open>
  C39 (bounds): the request fits its buffer for every configured server and every host
  name \<open>gethostname\<close> can give: what is sent is the whole text, cut nowhere.
\<close>

theorem helo_sent_whole:
  assumes "server \<in> set LIFELINE_SERVERS" "length name \<le> 199" "0 \<notin> set name" "length helo = 2048"
  shows "\<exists>helo'. build_helo helo (Some name) server = Inr helo' \<and> length helo' = 2048 \<and>
     cstring_at helo' 0 = helo_text server name"
proof (intro exI conjI)
  have s: "length server \<le> 24" "0 \<notin> set server" using configured_server [OF assms(1)] by simp_all
  show "build_helo helo (Some name) server = Inr (overwrite helo 0 (helo_text server name @ [0]))"
    using assms(2,4) s(1) by (intro build_helo_whole) simp_all
  show "length (overwrite helo 0 (helo_text server name @ [0])) = 2048"
    using assms(2,4) s(1) by (simp add: length_overwrite helo_text_length)
  show "cstring_at (overwrite helo 0 (helo_text server name @ [0])) 0 = helo_text server name"
    using helo_text_cstr [OF s(2) assms(3)] by (intro cstring_at_terminated) (simp_all add: overwrite_def)
qed

theorem helo_sent_whole_witness:
  "\<exists>helo'. build_helo (replicate 2048 7) (Some (replicate 199 97)) (bytes ''lifeline.superscale.io'') = Inr helo' \<and>
     length helo' = 2048 \<and> cstring_at helo' 0 = helo_text (bytes ''lifeline.superscale.io'') (replicate 199 97)"
  by (rule helo_sent_whole) (simp_all add: LIFELINE_SERVERS_def)

text \<open>
  C31 (equivalence): however the server's bytes are cut into pieces, the header loop ends
  exactly behind the first four line characters in a row, or not at all when there are none:
  no byte of what follows is eaten.
\<close>

theorem skip_headers_exact:
  assumes "[] \<notin> set segs"
  shows "(\<exists>segs'. snd (skip_headers helo 0 segs) = Some segs' \<and> concat segs' = rest) \<longleftrightarrow>
     (\<exists>hdr. concat segs = hdr @ rest \<and> header_block hdr)"
  by (rule skip_headers_eq [OF assms])

theorem skip_headers_exact_witness:
  "\<exists>segs'. snd (skip_headers [0] 0 [[13, 10], [13, 10, 83], [83]]) = Some segs' \<and> concat segs' = [83, 83]"
  using skip_headers_exact [of "[[13, 10], [13, 10, 83], [83]]" "[0]" "[83, 83]"] header_block_4
  by (auto intro: exI [of _ "[13, 10, 13, 10]"])

text \<open>
  C22 (functional): an attempt on a server that accepts the connection, sends the expected
  line, a header block and then the frames of the tunnel, and closes only after the last of
  them, with a local daemon that accepts and stays open, complete \<open>write\<close>s and a \<open>poll\<close> that
  keeps answering, comes to its end with result 0: the server got the whole request, the
  daemon got exactly the frames and nothing else, and the server got what was read from the
  daemon, of which nothing is lost.
\<close>

theorem attempt_relays_frames:
  assumes "rc = sys_remote sys (lf_attempts st)"
    and "host = (case sys_hostname sys of None \<Rightarrow> bytes ''?'' | Some n \<Rightarrow> n)" "length host \<le> 199" "0 \<notin> set host"
    and "name \<in> set LIFELINE_SERVERS" "length (lf_helo st) = 2048"
    and "1 < rc_socket rc" "rc_poll rc = 1" "\<not> rc_sigpipe rc"
    and "fst (recv (length expect) (rc_segments rc)) = expect" "[] \<notin> set (rc_segments rc)"
    and "concat (rc_segments rc) = expect @ hdr @ frames" "header_block hdr"
    and "1 \<le> rc_local_socket rc" "0 < rc_local_pton rc" "0 \<le> rc_local_connect rc"
    and "serving (rc_rounds rc) (relay_start rc frames)"
    and "length (rc_local_in rc) + length frames < length (rc_rounds rc)"
  shows "\<exists>st' s. attempt_remote sys name address st = Inr (Some 0, st') \<and>
     lf_log st' = lf_log st @ [Connecting (rc_socket rc) address, Sent (rc_socket rc) (helo_text name host),
       Connecting (rc_local_socket rc) [127, 0, 0, 1], Forwarded (rc_local_socket rc) (rc_socket rc) s] \<and>
     out1 s = frames \<and> in2 s = [] \<and> out2 s @ in1 s = rc_local_in rc"
proof -
  obtain segs where rv: "recv (length expect) (rc_segments rc) = (expect, segs)"
    using assms(10) by (cases "recv (length expect) (rc_segments rc)") simp
  have segs: "concat segs = hdr @ frames" "[] \<notin> set segs"
    using recv_takes [OF rv] recv_nonempty [OF rv assms(11)] assms(12) by simp_all
  obtain s where s: "forward_loop (rc_rounds rc) (relay_start rc frames) = (Some Returned, s)"
      "in2 s = []" "out1 s = frames" "out2 s @ in1 s = rc_local_in rc"
    using serving_ends [OF assms(17)] assms(18) by (auto simp: pending_def relay_start_def)
  show ?thesis
    using attempt_upgraded [OF assms(1-9) rv segs assms(13-16) s(1), of address] s(2-4) by blast
qed

theorem attempt_relays_frames_witness:
  "\<exists>st' s. attempt_remote sample_system (bytes ''lifeline.exys.org'') [10, 0, 0, 1] lifeline_start = Inr (Some 0, st') \<and>
     Forwarded 4 3 s \<in> set (lf_log st') \<and> out1 s = [1, 2] \<and> out2 s @ in1 s = [9]"
proof -
  have rc: "agreeing = sys_remote sample_system (lf_attempts lifeline_start)"
    by (simp add: sample_system_def lifeline_start_def)
  have host: "bytes ''ap'' = (case sys_hostname sample_system of None \<Rightarrow> bytes ''?'' | Some n \<Rightarrow> n)"
      "length (bytes ''ap'') \<le> 199" "0 \<notin> set (bytes ''ap'')" by (simp_all add: sample_system_def bytes_def)
  have st: "length (lf_helo lifeline_start) = 2048" "bytes ''lifeline.exys.org'' \<in> set LIFELINE_SERVERS"
    by (simp_all add: lifeline_start_def LIFELINE_SERVERS_def)
  have conn: "1 < rc_socket agreeing" "rc_poll agreeing = 1" "\<not> rc_sigpipe agreeing" "1 \<le> rc_local_socket agreeing"
      "0 < rc_local_pton agreeing" "0 \<le> rc_local_connect agreeing"
    by (simp_all add: agreeing_def)
  have segs: "fst (recv (length expect) (rc_segments agreeing)) = expect" "[] \<notin> set (rc_segments agreeing)"
      "concat (rc_segments agreeing) = expect @ [13, 10, 13, 10] @ [1, 2]"
    by (simp_all add: agreeing_def expect_def bytes_def)
  have run: "serving (rc_rounds agreeing) (relay_start agreeing [1, 2])"
      "length (rc_local_in agreeing) + length ([1, 2] :: byte list) < length (rc_rounds agreeing)"
    using drain_serving by (simp_all add: agreeing_def drain_def)
  show ?thesis
    using attempt_relays_frames [OF rc host st(2,1) conn(1-3) segs header_block_4 conn(4-6) run, of "[10, 0, 0, 1]"]
    by (auto simp: agreeing_def)
qed

text \<open>
  C25 (safety): over the whole run, every relay belongs to an attempt whose server sent the
  expected line and a header block, and it ran on exactly the bytes behind that block.
\<close>

theorem main_relays_served:
  assumes "lifeline_main sys = Inr st'" "Forwarded l r s \<in> set (lf_log st')"
  shows "\<exists>i < lf_attempts st'. served (sys_remote sys i) s"
proof -
  have "\<exists>rc \<in> set (attempts_between sys lifeline_start st'). served rc s"
    using relaying.whole_run [OF assms(1)] assms(2) by (auto simp: relays_served_def lifeline_start_def)
  then show ?thesis by (auto simp: attempts_between_def)
qed

theorem main_relays_served_witness:
  "\<exists>st'. lifeline_main sample_system = Inr st' \<and> (\<exists>i < lf_attempts st'. served (sys_remote sample_system i) drained)"
proof -
  obtain st' where "lifeline_main sample_system = Inr st'" "Forwarded 4 3 drained \<in> set (lf_log st')"
    using sample_main by auto
  then show ?thesis using main_relays_served by blast
qed

text \<open>
  C24 (invariant): the descriptors that are open at the end of the run are those of the start
  and those each attempt leaves open: both sockets of an attempt that got to the relay, none
  of one that failed before the upgrade. The sockets of the resolvers are all closed.
\<close>

theorem main_descriptors:
  assumes "lifeline_main sys = Inr st'"
  shows "mset (lf_fds st') = mset (concat (map (\<lambda>i. leaked (sys_remote sys i)) [0..<lf_attempts st'])) + {#0, 1, 2#}"
  using accounting.whole_run [OF assms]
  by (simp add: accounts_def attempts_between_def lifeline_start_def comp_def add_mset_commute)

theorem main_descriptors_witness:
  "\<exists>st'. lifeline_main sample_system = Inr st' \<and>
     mset (lf_fds st') = mset (concat (map (\<lambda>i. leaked (sys_remote sample_system i)) [0..<lf_attempts st'])) + {#0, 1, 2#}"
  using sample_main main_descriptors by blast

text \<open>
  C30 (functional): a server's host name is looked up, and the addresses of the reply are
  tried in the order of the reply, up to the first that has a zero ttl (which ends the walk over
  the records); the resolver's socket is closed after that. With eight addresses, as many as
  the array holds, and no zero ttl nothing ends the walk, and after the eighth it leaves the
  array.
\<close>

theorem server_addresses_in_order:
  assumes "lookup_ready sys e st"
    and "dc_received (sys_dns sys (lf_lookups st)) = Some (d, sys_inet_addr sys dns_ip)"
    and "d = reply_bytes flags q as ns ar rest" "length d \<le> 524" "0 \<notin> set q" "\<forall>a \<in> set as. answer_ok a" "as \<noteq> []"
    and "length (addresses as) \<le> 8"
  shows "attempt_server sys dns_ip e st =
     (let sock = dc_socket (sys_dns sys (lf_lookups st));
          live = takeWhile (\<lambda>r. rr_ttl r \<noteq> 0) (addresses as);
          st1 = log_event (Asked dns_ip (request_header @ request_payload e))
                  (open_fd sock (st\<lparr>lf_lookups := lf_lookups st + 1\<rparr>))
      in cbind (attempt_all sys e (map rr_address live) st1) (\<lambda>st2.
           if length live < 8 then Inr (close_fd sock st2) else Inl Undefined))"
  using attempt_server_reply [OF assms] unfolding Let_def live_records_def .

definition lookup_system :: "answer list \<Rightarrow> system" where
  "lookup_system as = sample_system\<lparr>sys_inet_addr := (\<lambda>s. INADDR_NONE),
     sys_dns := (\<lambda>i. \<lparr>dc_socket = 5, dc_send = (\<lambda>q. int (length q)),
       dc_received = Some (reply_bytes 0x8180 [1, 97] as 0 0 [], INADDR_NONE)\<rparr>),
     sys_remote := (\<lambda>i. agreeing\<lparr>rc_socket := -1\<rparr>)\<rparr>"

theorem server_addresses_in_order_witness:
  "attempt_server (lookup_system (replicate 8 (hd (tl sample_answers)))) [] [97] lifeline_start = Inl Undefined \<and>
   (\<exists>st'. attempt_server (lookup_system [(hd (tl sample_answers))\<lparr>an_ttl := 0\<rparr>, hd (tl sample_answers)]) [] [97]
       lifeline_start = Inr st' \<and> lf_attempts st' = 0 \<and> lf_fds st' = [2, 1, 0])"
proof -
  have "attempt_server (lookup_system (replicate 8 (hd (tl sample_answers)))) [] [97] lifeline_start = Inl Undefined"
  proof -
    let ?as = "replicate 8 (hd (tl sample_answers))"
    let ?sys = "lookup_system ?as"
    let ?d = "reply_bytes 0x8180 [1, 97] ?as 0 0 []"
    have a: "length (answer_bytes (hd (tl sample_answers))) = 16" "answer_ok (hd (tl sample_answers))"
        "is_address (hd (tl sample_answers))" "rr_ttl (record_of (hd (tl sample_answers))) \<noteq> 0"
      by (simp_all add: sample_answers_def answer_bytes_def answer_ok_def compressed_def is_address_def record_of_def)
    have "length (concat (replicate n (answer_bytes (hd (tl sample_answers))))) = n * 16" for n
      by (induction n) (simp_all add: a)
    then have len: "length ?d \<le> 524" by (simp add: reply_bytes_def answers_bytes_def map_replicate_const)
    have adr: "addresses ?as = replicate 8 (record_of (hd (tl sample_answers)))"
      using a by (simp add: addresses_def)
    have ready: "lookup_ready ?sys [97] lifeline_start" by (simp add: lookup_ready_def lookup_system_def Let_def)
    have recvd: "dc_received (sys_dns ?sys (lf_lookups lifeline_start)) = Some (?d, sys_inet_addr ?sys [])"
      by (simp add: lookup_system_def)
    have quick: "\<exists>st'. attempt_all ?sys e xs st = Inr st'" for e xs st
      by (induction xs arbitrary: st) (simp_all add: attempt_remote_def lookup_system_def remote_connect_def Let_def)
    obtain st' where "attempt_all ?sys [97] (map rr_address (addresses ?as))
        (log_event (Asked [] (request_header @ request_payload [97])) (open_fd (dc_socket (sys_dns ?sys (lf_lookups lifeline_start)))
          (lifeline_start\<lparr>lf_lookups := lf_lookups lifeline_start + 1\<rparr>))) = Inr st'" using quick by blast
    then show ?thesis
      using server_addresses_in_order [OF ready recvd refl len] a by (simp add: adr Let_def)
  qed
  moreover have "\<exists>st'. attempt_server (lookup_system [(hd (tl sample_answers))\<lparr>an_ttl := 0\<rparr>, hd (tl sample_answers)]) [] [97]
       lifeline_start = Inr st' \<and> lf_attempts st' = 0 \<and> lf_fds st' = [2, 1, 0]"
  proof -
    let ?as = "[(hd (tl sample_answers))\<lparr>an_ttl := 0\<rparr>, hd (tl sample_answers)]"
    let ?sys = "lookup_system ?as"
    let ?d = "reply_bytes 0x8180 [1, 97] ?as 0 0 []"
    have len: "length ?d \<le> 524" by (simp add: reply_bytes_def answers_bytes_def answer_bytes_def sample_answers_def)
    have ok: "\<forall>a \<in> set ?as. answer_ok a" by (simp add: sample_answers_def answer_ok_def compressed_def)
    have adr: "addresses ?as = [\<lparr>rr_ttl = 0, rr_address = [1, 2, 3, 4]\<rparr>, \<lparr>rr_ttl = 60, rr_address = [1, 2, 3, 4]\<rparr>]"
      by (simp add: addresses_def sample_answers_def is_address_def record_of_def)
    have ready: "lookup_ready ?sys [97] lifeline_start" by (simp add: lookup_ready_def lookup_system_def Let_def)
    have recvd: "dc_received (sys_dns ?sys (lf_lookups lifeline_start)) = Some (?d, sys_inet_addr ?sys [])"
      by (simp add: lookup_system_def)
    show ?thesis
      using server_addresses_in_order [OF ready recvd refl len _ ok] unfolding adr
      by (simp add: lifeline_start_def Let_def lookup_system_def)
  qed
  ultimately show ?thesis ..
qed

text \<open>
  C35 (error): the program asks the four fixed resolvers in order and then reads
  \<open>/etc/resolv.conf\<close>. Made of lines that name a resolver and of other lines, it adds nothing
  when no line names one; the first line that does ends the defined part of the run, for
  \<open>sscanf\<close> is told to store the word over the line it is reading. The resolvers of the file
  are never asked by a defined run.
\<close>

theorem main_asks_resolvers:
  assumes "sys_files sys (bytes ''/etc/resolv.conf'') = Some (concat (map conf_text ls))" "\<forall>l \<in> set ls. conf_ok l"
  shows "lifeline_main sys =
     cbind (attempt_resolvers sys
         [bytes ''8.8.8.8'', bytes ''8.8.4.4'', bytes ''208.67.222.222'', bytes ''208.67.220.220''] lifeline_start)
       (\<lambda>st. if nameservers ls = [] then Inr st else Inl Undefined)"
proof -
  let ?four = "[bytes ''8.8.8.8'', bytes ''8.8.4.4'', bytes ''208.67.222.222'', bytes ''208.67.220.220'']"
  let ?conf = "bytes ''/etc/resolv.conf''"
  have plain: "\<forall>re \<in> set ?four. take 1 re \<noteq> [47]" by (simp add: bytes_def)
  have slash: "take 1 ?conf = [47]" by (simp add: bytes_def)
  have "try_resolvers sys [?conf] st = (if nameservers ls = [] then Inr st else Inl Undefined)" for st
    using slash resolvconf_loop_lines [OF assms(2), of sys st] by (simp add: parse_resolvconf_def assms(1))
  then have conf: "try_resolvers sys [?conf] = (\<lambda>st. if nameservers ls = [] then Inr st else Inl Undefined)" by auto
  have all: "DNS_RESOLVERS = ?four @ [?conf]" by (simp add: DNS_RESOLVERS_def)
  have "lifeline_main sys = cbind (attempt_resolvers sys ?four lifeline_start) (try_resolvers sys [?conf])"
    unfolding lifeline_main_def all by (rule try_resolvers_plain [OF plain])
  then show ?thesis unfolding conf .
qed

text \<open>A system on which no socket can be had, with a given \<open>resolv.conf\<close>.\<close>

definition idle_system :: "byte list \<Rightarrow> system" where
  "idle_system conf = sample_system\<lparr>sys_files := (\<lambda>f. Some conf), sys_remote := (\<lambda>i. agreeing\<lparr>rc_socket := -1\<rparr>)\<rparr>"

lemma idle_resolvers: "\<exists>st'. attempt_resolvers (idle_system conf) ips st = Inr st'"
proof (induction ips arbitrary: st)
  case (Cons ip ips)
  have one: "\<exists>st'. attempt_server (idle_system conf) ip e st = Inr st'" for e st
    by (simp add: attempt_server_def attempt_remote_def remote_connect_def Let_def)
      (simp add: idle_system_def sample_system_def INADDR_NONE_def)
  have "\<exists>st'. attempt_servers (idle_system conf) ip es st = Inr st'" for es
  proof (induction es arbitrary: st)
    case (Cons e es)
    obtain st1 where "attempt_server (idle_system conf) ip e st = Inr st1" using one by blast
    then show ?case using Cons by simp
  qed simp
  then obtain st1 where "attempt_dns (idle_system conf) ip st = Inr st1" unfolding attempt_dns_def by blast
  then show ?case using Cons by simp
qed simp

theorem main_asks_resolvers_witness:
  "lifeline_main (idle_system (bytes ''# none'' @ [10] @ bytes ''nameserver 9.9.9.9'' @ [10])) = Inl Undefined \<and>
   (\<exists>st. lifeline_main (idle_system (bytes ''# none'' @ [10])) = Inr st)"
proof -
  let ?l = "Other (bytes ''# none'')" and ?n = "Nameserver (bytes ''9.9.9.9'')"
  have ok: "\<forall>l \<in> set [?l]. conf_ok l" "\<forall>l \<in> set [?l, ?n]. conf_ok l" by (simp_all add: bytes_def is_space_def)
  have f: "sys_files (idle_system c) f = Some c" for c f by (simp add: idle_system_def)
  have "bytes ''nameserver 9.9.9.9'' = bytes ''nameserver '' @ bytes ''9.9.9.9''" by (simp add: bytes_def)
  then have t: "concat (map conf_text [?l]) = bytes ''# none'' @ [10]"
      "concat (map conf_text [?l, ?n]) = bytes ''# none'' @ [10] @ bytes ''nameserver 9.9.9.9'' @ [10]" by simp_all
  have "lifeline_main (idle_system (bytes ''# none'' @ [10] @ bytes ''nameserver 9.9.9.9'' @ [10])) = Inl Undefined"
    (is "lifeline_main ?sys = _")
  proof -
    obtain st where "attempt_resolvers ?sys [bytes ''8.8.8.8'', bytes ''8.8.4.4'', bytes ''208.67.222.222'',
        bytes ''208.67.220.220''] lifeline_start = Inr st" using idle_resolvers by blast
    then show ?thesis using main_asks_resolvers [OF _ ok(2), of ?sys] unfolding f t by simp
  qed
  moreover have "\<exists>st. lifeline_main (idle_system (bytes ''# none'' @ [10])) = Inr st"
    (is "\<exists>st. lifeline_main ?sys = Inr st")
  proof -
    obtain st where "attempt_resolvers ?sys [bytes ''8.8.8.8'', bytes ''8.8.4.4'', bytes ''208.67.222.222'',
        bytes ''208.67.220.220''] lifeline_start = Inr st" using idle_resolvers by blast
    then show ?thesis using main_asks_resolvers [OF _ ok(1), of ?sys] unfolding f t by simp
  qed
  ultimately show ?thesis ..
qed

end
