(* ===== verification/Spec2Isabelle.thy ===== *)
theory Spec2Isabelle
  imports Safeloader PatchCmdline LifelineRun
begin

text \<open>
  A verification development for the C programs of safewrt: the firmware tool
  tools/tplink-safeloader, the kernel command line patcher tools/patch-cmdline and the remote
  access client packages/lifeline.

  \<^bold>\<open>How C is modelled.\<close> Theory \<open>Prelude\<close>: machine integers are words of their width where
  the code computes with them (\<open>unsigned\<close>, \<open>uint32_t\<close>, \<open>size_t\<close> as 32 and 64 bits), sizes of
  objects are natural numbers. A function returns \<open>Inr\<close> a value or \<open>Inl\<close> a failure: the
  program's own \<open>error(1, ...)\<close>, \<open>exit\<close>, a failed \<open>assert\<close>, the signal of a \<open>write\<close> or \<open>send\<close> to a
  closed connection, behaviour the C standard leaves undefined, or still running when the
  given system answers are used up. Objects are byte lists with checked reads and writes, so
  an access outside an object is a value of the model; library functions that read memory
  (\<open>memchr\<close>, \<open>strtoul\<close>, \<open>strncpy\<close>) are undefined where they would leave the object.
  Conversions of an integer to a narrower signed type keep its low bits, as gcc defines them.
  What the programs take from outside is an argument of the definitions: memory with its old
  contents, files, the clock, the answers of the system calls, \<open>inet_addr\<close>. \<open>CFormat\<close> holds the
  conversions of the C library (\<open>snprintf\<close>, \<open>%05x\<close>, \<open>strtoul\<close>, \<open>memchr\<close>).

  \<^bold>\<open>tplink-safeloader\<close> (tplink-safeloader.c, md5.c, md5.h).
  \<open>Layout\<close>: \<open>struct image_partition_entry\<close>, \<open>flash_partition_entry\<close>, \<open>device_info\<close> and the
  searches over their null-terminated arrays. \<open>Boards\<close>: the table \<open>boards\<close>, one definition for
  each entry, and \<open>find_board\<close>. \<open>ImageParts\<close>: the functions that make one partition
  (\<open>make_partition_table\<close>, \<open>make_soft_version\<close>, \<open>make_support_list\<close>, \<open>read_file\<close>,
  \<open>read_file_split2\<close>, \<open>put_data\<close>). \<open>Md5\<close>: the macros, \<open>body\<close>, \<open>MD5_Init\<close>, \<open>MD5_Update\<close>,
  \<open>MD5_Final\<close>. \<open>Image\<close>: \<open>put_partitions\<close>, \<open>put_md5\<close>, \<open>generate_factory_image\<close>,
  \<open>generate_sysupgrade_image\<close>, \<open>build_image\<close>. \<open>Build\<close>: what \<open>build_image\<close> gives for the boards of
  the table. \<open>Extract\<close>: \<open>read_partition_table\<close>, \<open>extract_firmware\<close>, \<open>convert_firmware\<close> and what
  they call. \<open>Roundtrip\<close>: the readers on every input, and on what the writers make.
  \<open>Safeloader\<close>: \<open>set_source_date_epoch\<close> and \<open>main\<close>.

  What is shown: the unrolled digest code computes RFC 1321, for every split of a message over
  updates; the factory image is exactly the documented format, or the program ends with the
  error it has for that case; the sysupgrade image of a layout in order has every partition of its
  range at its flash distance and 0xff elsewhere; the layouts of the table are disjoint and lie in the first 32
  MiB; the table parser ends on every input and stays inside its buffers, for which it needs
  the zero byte it stores at the end of the text; a factory image the tool made, of at most
  sixteen partitions with plain names, extracts to its partitions, and that of ARCHER-C7-V4
  converts to the sysupgrade image of the same build. Also where the program does not do what
  it means to: for the boards without \<open>extra-para\<close> a null gap in the array of partitions hides
  the later ones, \<open>-j\<close> has no effect, and a fill of more than 2 GiB stops at 2 GiB because the
  counter of \<open>write_ff\<close> is an \<open>int\<close>. (\<open>write_ff\<close> takes a \<open>size_t\<close>; its callers pass a difference
  of two \<open>uint32_t\<close>, and the model takes that.)

  \<^bold>\<open>patch-cmdline\<close> (patch-cmdline.c). \<open>PatchCmdline\<close>: the whole program over a file mapped in
  pages of 4096 bytes. What is shown: whenever the program returns 0, the file has the marker,
  the field behind the first aligned one holds the command line and zeros, and nothing else
  is changed; patching again replaces the patch; an image shorter than the search space is
  read behind its mapping.

  \<^bold>\<open>lifeline\<close> (dns.c, lifeline.c, config.h). \<open>Dns\<close>: \<open>dns_init\<close>, \<open>dns_request\<close>, \<open>dns_receive\<close> over
  the bytes of \<open>dns_packet_t\<close>. \<open>Relay\<close>: \<open>splice\<close> and \<open>forward_loop\<close>, as a function of the
  system's answers in each round and as a step relation between the points of a round, with
  the same runs. \<open>Lifeline\<close>: \<open>build_helo\<close>, \<open>remote_connect\<close>, \<open>local_connect\<close>, \<open>attempt_remote\<close>,
  \<open>attempt_dns\<close>, \<open>parse_resolvconf\<close> and \<open>main\<close>, over a state with the open descriptors, the static
  request buffer and a log of what the peers see. \<open>LifelineRun\<close>: what holds of whole runs.
  What is shown: the question a request sends reads back as the name exactly when the name's
  labels are legal; replies with compressed names are read exactly when they have at most
  eight addresses, and a ninth is stored behind the array; the addresses of a reply are tried
  in order up to the first with a zero ttl, and without one a reply with eight takes the walk
  off the array; the header loop eats no byte of the tunnel, however the bytes arrive; the relay neither invents nor
  reorders bytes, loses none when every \<open>write\<close> is complete, and ends on a finite input as long as \<open>poll\<close> answers; an
  attempt on a server that agrees, served to its end, delivers exactly the frames; every relay
  of a run belongs to a server that agreed; the descriptors that stay open are exactly those
  of the attempts that got that far. A \<open>resolv.conf\<close> that names a resolver ends the defined part of
  the run: \<open>sscanf\<close> stores the word over the line it is reading.

  \<^bold>\<open>Interfaces.\<close> \<open>incremental_hash\<close> (Md5): the three operations of a digest and the law that
  any split over updates gives the digest of the whole, instantiated by md5.c. \<open>ptn_format\<close> (Extract): the text format the table parser expects of a table,
  with the image and the flash format as instances. \<open>pipe\<close> and \<open>full_pipe\<close> (Relay): one
  direction of a relay, instantiated for both directions of the loop. \<open>call_contract\<close>
  (LifelineRun): what every call of the client keeps, instantiated by the account of
  descriptors and by what is relayed.

  \<^bold>\<open>Loops.\<close> The loops of the C code are recursive functions with a measure; no fuel is used.
  \<open>body\<close> of md5.c is a recursion on the memory behind its pointer, and \<open>md5_body_returns\<close> says
  exactly when it returns: any size but a positive multiple of 64 within the object runs
  off its end. The relay is a function of a
  list of rounds and tells when the list ends before the loop does.

  \<^bold>\<open>Not modelled.\<close> Messages and the usage text; \<open>getopt\<close> (its results are the input of
  \<open>safeloader_main\<close>); freeing memory; failing writes to an output file, which the code
  never detects; what is in the output when a run ends with an error; input and output under
  the same path; signals other than that of a closed connection. Socket options, \<open>dns_set_timeout\<close> and the test program in dns.c. The Rust
  services packages/hatch and genesis/genesis-gf, which are written against libraries that are
  not in the repository; the OpenWrt makefiles, patches, kernel configuration and templates.
\<close>

end
